theory Spec2Isabelle
  imports Main "HOL-Library.Char_ord" "HOL-Library.List_Lexorder"
begin

section \<open>blogz: reading a directory of files into a blog structure\<close>

text \<open>
  A shallow embedding of \<^verbatim>\<open>readBlogSync\<close> (src/index.js). The function reads a
  configuration record, lists a content directory, folds every file into a table of
  posts keyed by the file's base name, normalises the dates, keeps the posts whose date
  has passed, sorts and links them, and builds the archive, the tag index and two feeds.

  The npm modules the function calls (the JSON, YAML and INI decoders, the two markup
  renderers, escape-html, moment's formatter, data2xml) and \<^verbatim>\<open>Date.parse\<close> are
  parameters of the model, collected in the record \<open>env\<close>. The two readings of the
  clock (\<^verbatim>\<open>new Date()\<close> on line 69 and \<^verbatim>\<open>moment()\<close> on line 280) are the
  parameters \<open>now\<close> and \<open>now2\<close>, in milliseconds since the epoch. The content
  directory is a parameter too, and every call of \<^verbatim>\<open>fs\<close> is written to a log.
\<close>

subsection \<open>Strings\<close>

text \<open>
  \<^verbatim>\<open>str.split(/c/)\<close> for a single character: the pieces between the occurrences
  of the character, one piece (the empty one) for the empty string.
\<close>

fun split_on :: "char \<Rightarrow> string \<Rightarrow> string list" where
  "split_on c [] = [[]]"
| "split_on c (x # xs) =
     (if x = c then [] # split_on c xs
      else (case split_on c xs of
              [] \<Rightarrow> [[x]]
            | p # ps \<Rightarrow> (x # p) # ps))"

text \<open>\<^verbatim>\<open>pieces.join(sep)\<close>.\<close>

fun join :: "string \<Rightarrow> string list \<Rightarrow> string" where
  "join sep [] = []"
| "join sep [p] = p"
| "join sep (p # q # ps) = p @ sep @ join sep (q # ps)"

definition is_digit :: "char \<Rightarrow> bool" where
  "is_digit c = (c \<in> set ''0123456789'')"

text \<open>
  Lines 95 to 97: \<^verbatim>\<open>basename.replace(/^\d+-/, '')\<close> when the base name starts with
  one or more digits and a hyphen.
\<close>

definition strip_initial_numbers :: "string \<Rightarrow> string" where
  "strip_initial_numbers s =
     (case dropWhile is_digit s of
        [] \<Rightarrow> s
      | c # rest \<Rightarrow> if takeWhile is_digit s \<noteq> [] \<and> c = CHR ''-'' then rest else s)"

text \<open>
  \<^verbatim>\<open>toUpperCase\<close> on one character. The model has the ASCII letters; every other
  character is left as it is.
\<close>

definition to_upper :: "char \<Rightarrow> char" where
  "to_upper c =
     (case map_of (zip ''abcdefghijklmnopqrstuvwxyz'' ''ABCDEFGHIJKLMNOPQRSTUVWXYZ'') c of
        None \<Rightarrow> c
      | Some u \<Rightarrow> u)"

text \<open>\<^verbatim>\<open>str.substr(0, 1).toUpperCase() + str.substr(1)\<close>.\<close>

definition capitalise :: "string \<Rightarrow> string" where
  "capitalise str = map to_upper (take 1 str) @ drop 1 str"

text \<open>Line 106, the default title of a post.\<close>

definition default_title :: "string \<Rightarrow> string" where
  "default_title basename = join '' '' (map capitalise (split_on CHR ''-'' basename))"

subsection \<open>Property lookup on object literals\<close>

text \<open>Lines 38 to 46: the own keys of \<^verbatim>\<open>validExt\<close>, each with the value true.\<close>

definition validExt :: "string list" where
  "validExt = [''md'', ''textile'', ''txt'', ''html'', ''json'', ''yaml'', ''ini'']"

text \<open>
  \<^verbatim>\<open>validExt\<close>, \<^verbatim>\<open>post\<close>, \<^verbatim>\<open>archive\<close> and \<^verbatim>\<open>tagged\<close> are object
  literals, so a lookup \<^verbatim>\<open>obj[key]\<close> that finds no own property goes on to
  \<^verbatim>\<open>Object.prototype\<close>. These are the names it finds there; the value of each is a
  function or an object, which is truthy.
\<close>

definition Object_prototype :: "string list" where
  "Object_prototype =
     [''constructor'', ''toString'', ''toLocaleString'', ''valueOf'', ''hasOwnProperty'',
      ''isPrototypeOf'', ''propertyIsEnumerable'', ''__proto__'', ''__defineGetter__'',
      ''__defineSetter__'', ''__lookupGetter__'', ''__lookupSetter__'']"

definition inherited :: "string \<Rightarrow> bool" where
  "inherited key = (key \<in> set Object_prototype)"

text \<open>
  Line 89, \<^verbatim>\<open>validExt[ext]\<close> as a condition. \<open>None\<close> is \<^verbatim>\<open>undefined\<close>
  (the file name has no dot), which looks up the key "undefined" and finds nothing.
\<close>

definition validExt_truthy :: "string option \<Rightarrow> bool" where
  "validExt_truthy ext =
     (case ext of
        None \<Rightarrow> False
      | Some x \<Rightarrow> x \<in> set validExt \<or> inherited x)"

subsection \<open>Dates\<close>

text \<open>
  A time value is a number of milliseconds since the epoch; \<open>None\<close> is the time value
  NaN of an invalid Date. The Date built-ins the function uses are modelled after
  ECMAScript: \<^verbatim>\<open>new Date(value)\<close>, the comparison \<^verbatim>\<open><\<close> of two Dates, and
  \<^verbatim>\<open>toISOString\<close>.
\<close>

definition time_clip :: "int \<Rightarrow> int option" where
  "time_clip n = (if \<bar>n\<bar> \<le> 8640000000000000 then Some n else None)"

text \<open>
  Year, month and day of a day number (days since the epoch) in the proleptic Gregorian
  calendar, as ECMAScript's YearFromTime, MonthFromTime and DateFromTime give them. The
  computation counts from the first of March of the year 0: \<open>doe\<close> is the day within
  the era of 400 years, \<open>yoe\<close> the year within the era, \<open>doy\<close> the day within the
  year that starts in March, \<open>mp\<close> the month counted from March.
\<close>

definition year_of_era :: "int \<Rightarrow> int" where
  "year_of_era doe = (doe - doe div 1460 + doe div 36524 - doe div 146096) div 365"

definition day_of_year :: "int \<Rightarrow> int \<Rightarrow> int" where
  "day_of_year doe yoe = doe - (365 * yoe + yoe div 4 - yoe div 100)"

definition month_from_march :: "int \<Rightarrow> int" where
  "month_from_march doy = (5 * doy + 2) div 153"

definition month_of :: "int \<Rightarrow> int" where
  "month_of mp = (if mp < 10 then mp + 3 else mp - 9)"

definition civil_in_year :: "int \<Rightarrow> int \<Rightarrow> int \<times> int \<times> int" where
  "civil_in_year y doy =
     (y + (if month_of (month_from_march doy) \<le> 2 then 1 else 0),
      month_of (month_from_march doy),
      doy - (153 * month_from_march doy + 2) div 5 + 1)"

definition civil_in_era :: "int \<Rightarrow> int \<Rightarrow> int \<times> int \<times> int" where
  "civil_in_era era doe =
     civil_in_year (year_of_era doe + era * 400) (day_of_year doe (year_of_era doe))"

definition civil_from_days :: "int \<Rightarrow> int \<times> int \<times> int" where
  "civil_from_days z = civil_in_era ((z + 719468) div 146097) ((z + 719468) mod 146097)"

fun digits10 :: "nat \<Rightarrow> string" where
  "digits10 n =
     (if n < 10 then [''0123456789'' ! n]
      else digits10 (n div 10) @ [''0123456789'' ! (n mod 10)])"

definition pad_int :: "nat \<Rightarrow> int \<Rightarrow> string" where
  "pad_int width n = replicate (width - length (digits10 (nat n))) CHR ''0'' @ digits10 (nat n)"

text \<open>
  \<^verbatim>\<open>Date.prototype.toISOString\<close> of a valid time value: four digits for the years
  0 to 9999, a sign and six digits for every other year.
\<close>

definition year_string :: "int \<Rightarrow> string" where
  "year_string y =
     (if 0 \<le> y \<and> y \<le> 9999 then pad_int 4 y
      else if y < 0 then ''-'' @ pad_int 6 (- y)
      else ''+'' @ pad_int 6 y)"

definition iso_format :: "int \<times> int \<times> int \<Rightarrow> int \<Rightarrow> string" where
  "iso_format ymd tod =
     (case ymd of
        (y, m, d) \<Rightarrow>
          year_string y @ ''-'' @ pad_int 2 m @ ''-'' @ pad_int 2 d @ ''T''
          @ pad_int 2 (tod div 3600000) @ '':'' @ pad_int 2 (tod div 60000 mod 60) @ '':''
          @ pad_int 2 (tod div 1000 mod 60) @ ''.'' @ pad_int 3 (tod mod 1000) @ ''Z'')"

definition toISOString :: "int \<Rightarrow> string" where
  "toISOString t = iso_format (civil_from_days (t div 86400000)) (t mod 86400000)"

subsection \<open>The data model\<close>

text \<open>
  What a metadata file may give as \<^verbatim>\<open>date\<close>: a Date object (YAML timestamps decode
  to one; the default is one), a string, or a number.
\<close>

datatype date_value = DDate "int option" | DString string | DNumber int

text \<open>
  A decoded metadata file: an object that may have the keys \<^verbatim>\<open>title\<close> (a string),
  \<^verbatim>\<open>date\<close> and \<^verbatim>\<open>tags\<close> (an array of strings), and other keys, which are
  carried along. The date parts and \<^verbatim>\<open>moment\<close> are not among the other keys: lines
  177 to 182 overwrite them in every post before anything reads them.
\<close>

record overlay =
  ov_title :: "string option"
  ov_date :: "date_value option"
  ov_tags :: "string list option"
  ov_other :: "(string \<times> string) list"

record Meta =
  title :: string
  date :: date_value
  moment :: "int option"
  year :: string
  month :: string
  day :: string
  monthname :: string
  tags :: "string list"
  other :: "(string \<times> string) list"

text \<open>
  A post object. Post objects are shared by reference between \<^verbatim>\<open>post\<close>,
  \<^verbatim>\<open>posts\<close>, \<^verbatim>\<open>latest\<close>, \<^verbatim>\<open>archive\<close>, \<^verbatim>\<open>tagged\<close> and the
  \<^verbatim>\<open>prev\<close> and \<^verbatim>\<open>next\<close> fields. The table \<^verbatim>\<open>post\<close> is the store: it holds
  each object once, under the base name it was created for, and that key is the reference
  to the object everywhere else. \<open>None\<close> in \<open>prev\<close> or \<open>next\<close> is a property
  that was never set.
\<close>

record Post =
  name :: string
  meta :: Meta
  content :: string
  html :: string
  prev :: "string option"
  "next" :: "string option"

type_synonym store = "(string \<times> Post) list"

text \<open>What data2xml is given: strings, numbers, objects and arrays.\<close>

datatype xdata = XStr string | XNum int | XObj "(string \<times> xdata) list" | XArr "xdata list"

text \<open>
  The collaborators. A decoder returns \<open>None\<close> where it throws;
  \<open>date_parse\<close> is \<^verbatim>\<open>Date.parse\<close>; \<open>moment_format pattern t\<close> is
  \<^verbatim>\<open>moment(t).format(pattern)\<close> for a valid time value.
\<close>

record env =
  json_parse :: "string \<Rightarrow> overlay option"
  yaml_load :: "string \<Rightarrow> overlay option"
  ini_decode :: "string \<Rightarrow> overlay option"
  marked :: "string \<Rightarrow> string"
  textile :: "string \<Rightarrow> string"
  escape :: "string \<Rightarrow> string"
  date_parse :: "string \<Rightarrow> int option"
  moment_format :: "string \<Rightarrow> int \<Rightarrow> string"
  data2xml :: "string \<Rightarrow> xdata \<Rightarrow> string"

text \<open>
  The configuration record. \<open>None\<close> is a field that is not given. The counts are
  integers.
\<close>

record Opts =
  domain :: "string option"
  contentDir :: "string option"
  opt_title :: "string option"
  opt_description :: "string option"
  base :: "string option"
  latestCount :: "int option"
  indexCount :: "int option"

text \<open>
  An entry of the content directory: its name, what \<^verbatim>\<open>statSync(...).isDirectory()\<close>
  answers (\<open>None\<close> where \<^verbatim>\<open>statSync\<close> throws) and what \<^verbatim>\<open>readFileSync\<close>
  returns (\<open>None\<close> where it throws).
\<close>

record entry =
  e_name :: string
  e_isDirectory :: "bool option"
  e_contents :: "string option"

datatype fs_op = ReadDir string | Stat string | ReadFile string

text \<open>
  How a run ends without a result.
  \<^item> \<open>Error msg\<close>: \<^verbatim>\<open>throw new Error(msg)\<close>, lines 50 and 53.
  \<^item> \<open>FsError path\<close>: a call of \<^verbatim>\<open>fs\<close> on the path threw.
  \<^item> \<open>JsonParseExit filename\<close>: lines 127 and 128, the warning
    \<^verbatim>\<open>'Error parsing ' + filename + ' file : ' + e\<close> and \<^verbatim>\<open>process.exit(2)\<close>.
  \<^item> \<open>YamlException path\<close>: lines 136 and 137, the path is printed and the decoder's
    exception thrown again.
  \<^item> \<open>IniException\<close>: the exception of \<^verbatim>\<open>ini.decode\<close>, which nothing catches.
  \<^item> \<open>TypeError key\<close>: \<^verbatim>\<open>push\<close> was called on a value found under \<open>key\<close> on
    \<^verbatim>\<open>Object.prototype\<close>, which has no such method.
  \<^item> \<open>PrototypeClash key\<close>: not an end of the run in the source. The run has written to
    a built-in object found under \<open>key\<close> on \<^verbatim>\<open>Object.prototype\<close>, or stored that
    object in a table; the source goes on from there, and what it does depends on the
    state of objects shared by the whole process. The model does not follow it: a run
    that gets here has no result in the model, whatever the source returns.
\<close>

datatype error =
    Error string
  | FsError string
  | JsonParseExit string
  | YamlException string
  | IniException
  | TypeError string
  | PrototypeClash string

text \<open>
  The record the function returns. \<open>posts\<close>, \<open>latest\<close> and the buckets of
  \<open>archive\<close> and \<open>tagged\<close> hold references into \<open>post\<close>.
\<close>

record Corpus =
  posts :: "string list"
  post :: store
  pages :: "string list"
  latest :: "string list"
  archive :: "(string \<times> (string \<times> string list) list) list"
  tagged :: "(string \<times> string list) list"
  rss :: string
  atom :: string

subsection \<open>Objects used as tables\<close>

text \<open>
  An object literal used as a table is a list of its own properties in the order they
  were created. \<open>alist_put\<close> is the assignment \<^verbatim>\<open>obj[key] = value\<close>.
\<close>

fun alist_put :: "(string \<times> 'v) list \<Rightarrow> string \<Rightarrow> 'v \<Rightarrow> (string \<times> 'v) list" where
  "alist_put [] key v = [(key, v)]"
| "alist_put ((k, w) # rest) key v =
     (if k = key then (k, v) # rest else (k, w) # alist_put rest key v)"

text \<open>
  Lines 239 and 240 (and 230 and 233): \<^verbatim>\<open>obj[key] = obj[key] || []\<close> followed by
  \<^verbatim>\<open>obj[key].push(ref)\<close>. Under a key that \<^verbatim>\<open>obj\<close> does not own but
  \<^verbatim>\<open>Object.prototype\<close> has, the value found is not an array and \<^verbatim>\<open>push\<close> is not
  a function.
\<close>

definition bucket_push ::
  "(string \<times> string list) list \<Rightarrow> string \<Rightarrow> string \<Rightarrow> error + (string \<times> string list) list" where
  "bucket_push obj key ref =
     (case map_of obj key of
        Some bucket \<Rightarrow> Inr (alist_put obj key (bucket @ [ref]))
      | None \<Rightarrow> if inherited key then Inl (TypeError key) else Inr (obj @ [(key, [ref])]))"

text \<open>
  \<^verbatim>\<open>Object.keys\<close> lists the keys that are array indices first, in ascending numeric
  order, and then the other keys in the order of their creation.
\<close>

definition index_value :: "string \<Rightarrow> int" where
  "index_value s =
     foldl (\<lambda>n c. 10 * n + int (length (takeWhile (\<lambda>d. d \<noteq> c) ''0123456789''))) 0 s"

definition is_array_index :: "string \<Rightarrow> bool" where
  "is_array_index s =
     (case s of
        [] \<Rightarrow> False
      | c # cs \<Rightarrow> list_all is_digit s \<and> (c \<noteq> CHR ''0'' \<or> cs = []) \<and> index_value s < 4294967295)"

definition in_key_order :: "(string \<times> 'v) list \<Rightarrow> (string \<times> 'v) list" where
  "in_key_order obj =
     sort_key (\<lambda>kv. index_value (fst kv)) (filter (\<lambda>kv. is_array_index (fst kv)) obj)
     @ filter (\<lambda>kv. \<not> is_array_index (fst kv)) obj"

subsection \<open>Reading the files, lines 73 to 161\<close>

text \<open>Lines 76 to 78: the entries that are not directories, one \<^verbatim>\<open>statSync\<close> each.\<close>

fun skip_directories :: "string \<Rightarrow> entry list \<Rightarrow> (error + entry list) \<times> fs_op list" where
  "skip_directories dir [] = (Inr [], [])"
| "skip_directories dir (e # es) =
     (let path = dir @ ''/'' @ e_name e in
      case e_isDirectory e of
        None \<Rightarrow> (Inl (FsError path), [Stat path])
      | Some is_dir \<Rightarrow>
          (case skip_directories dir es of
             (Inl err, log) \<Rightarrow> (Inl err, Stat path # log)
           | (Inr files, log) \<Rightarrow> (Inr (if is_dir then files else e # files), Stat path # log)))"

text \<open>Lines 83 to 85 and 94 to 97: the extension and the base name of a file name.\<close>

definition file_ext :: "string \<Rightarrow> string option" where
  "file_ext filename =
     (case split_on CHR ''.'' filename of
        _ # ext # _ \<Rightarrow> Some ext
      | _ \<Rightarrow> None)"

definition file_basename :: "string \<Rightarrow> string" where
  "file_basename filename =
     (case split_on CHR ''.'' filename of
        [] \<Rightarrow> []
      | b # _ \<Rightarrow> strip_initial_numbers b)"

text \<open>Lines 103 to 117: the post a base name starts with.\<close>

definition default_post :: "env \<Rightarrow> int \<Rightarrow> string \<Rightarrow> Post" where
  "default_post env now basename =
     \<lparr> name = basename,
       meta = \<lparr> title = default_title basename,
                date = DDate (Some now),
                moment = Some now,
                year = moment_format env ''YYYY'' now,
                month = moment_format env ''MM'' now,
                day = moment_format env ''DD'' now,
                monthname = moment_format env ''MMMM'' now,
                tags = [],
                other = [] \<rparr>,
       content = [],
       html = [],
       prev = None,
       next = None \<rparr>"

text \<open>
  \<^verbatim>\<open>xtend({}, meta, decoded)\<close>: the keys of the decoded object replace those of the
  metadata record, the others stay.
\<close>

definition xtend :: "Meta \<Rightarrow> overlay \<Rightarrow> Meta" where
  "xtend m ov =
     m\<lparr> title := (case ov_title ov of None \<Rightarrow> title m | Some t \<Rightarrow> t),
        date := (case ov_date ov of None \<Rightarrow> date m | Some d \<Rightarrow> d),
        tags := (case ov_tags ov of None \<Rightarrow> tags m | Some ts \<Rightarrow> ts),
        other := ov_other ov @ other m \<rparr>"

text \<open>
  Lines 122 to 142, the decoder calls: the decoded object of a metadata file, \<open>None\<close>
  for a file that is not one, or the way the run ends where the decoder throws.
\<close>

definition decode :: "env \<Rightarrow> string \<Rightarrow> string \<Rightarrow> string \<Rightarrow> string \<Rightarrow> error + overlay option" where
  "decode env dir filename ext contents =
     (if ext = ''json'' then
        (case json_parse env contents of
           None \<Rightarrow> Inl (JsonParseExit filename)
         | Some ov \<Rightarrow> Inr (Some ov))
      else if ext = ''yaml'' then
        (case yaml_load env contents of
           None \<Rightarrow> Inl (YamlException (dir @ ''/'' @ filename))
         | Some ov \<Rightarrow> Inr (Some ov))
      else if ext = ''ini'' then
        (case ini_decode env contents of
           None \<Rightarrow> Inl IniException
         | Some ov \<Rightarrow> Inr (Some ov))
      else Inr None)"

text \<open>Lines 145 to 160, the four tests of the extension for a body.\<close>

definition set_contents :: "env \<Rightarrow> string \<Rightarrow> string \<Rightarrow> Post \<Rightarrow> Post" where
  "set_contents env ext contents p =
     (if ext = ''html'' then p\<lparr> content := contents, html := contents \<rparr>
      else if ext = ''md'' then p\<lparr> content := contents, html := marked env contents \<rparr>
      else if ext = ''textile'' then p\<lparr> content := contents, html := textile env contents \<rparr>
      else if ext = ''text'' then
        p\<lparr> content := contents, html := ''<pre>'' @ escape env contents @ ''</pre>'' \<rparr>
      else p)"

text \<open>The extensions lines 145 to 157 test for.\<close>

definition body_exts :: "string list" where
  "body_exts = [''html'', ''md'', ''textile'', ''text'']"

text \<open>
  The body of the loop over the files, lines 80 to 161, on the table \<^verbatim>\<open>post\<close>.

  A base name that \<^verbatim>\<open>Object.prototype\<close> has finds the built-in value there on line
  103 instead of a post, and no default post is made. The decoder still runs (and may end
  the run), and every assignment after it writes to the built-in value.
  \<^item> Under \<^verbatim>\<open>__proto__\<close> the value is \<^verbatim>\<open>Object.prototype\<close> itself, and the
    assignment of line 103 goes through the setter of that name, which gives the table no
    property. A file that is neither a metadata file nor one of the four extensions of
    lines 145 to 157 (that is txt, and the extensions that pass line 89 by inheritance)
    writes nothing more: the run goes on with the table as it was.
  \<^item> In every other case (a metadata or body file under \<^verbatim>\<open>__proto__\<close>, any file
    under the name of a built-in function) the source writes to the built-in value or
    stores it in the table, and goes on. The model stops there with \<open>PrototypeClash\<close>.
\<close>

definition process_file ::
  "env \<Rightarrow> string \<Rightarrow> int \<Rightarrow> store \<Rightarrow> entry \<Rightarrow> (error + store) \<times> fs_op list" where
  "process_file env dir now st e =
     (case file_ext (e_name e) of
        None \<Rightarrow> (Inr st, [])
      | Some ext \<Rightarrow>
          if \<not> validExt_truthy (Some ext) then (Inr st, [])
          else
            (let basename = file_basename (e_name e);
                 path = dir @ ''/'' @ e_name e;
                 p = (case map_of st basename of
                        None \<Rightarrow> default_post env now basename
                      | Some q \<Rightarrow> q)
             in case e_contents e of
                  None \<Rightarrow> (Inl (FsError path), [ReadFile path])
                | Some contents \<Rightarrow>
                    (case decode env dir (e_name e) ext contents of
                       Inl err \<Rightarrow> (Inl err, [ReadFile path])
                     | Inr decoded \<Rightarrow>
                         if inherited basename then
                           (if basename = ''__proto__'' \<and> decoded = None \<and> ext \<notin> set body_exts
                            then (Inr st, [ReadFile path])
                            else (Inl (PrototypeClash basename), [ReadFile path]))
                         else
                           (let p1 = (case decoded of
                                        None \<Rightarrow> p
                                      | Some ov \<Rightarrow> p\<lparr> meta := xtend (meta p) ov \<rparr>)
                            in (Inr (alist_put st basename (set_contents env ext contents p1)),
                                [ReadFile path])))))"

fun process_files ::
  "env \<Rightarrow> string \<Rightarrow> int \<Rightarrow> store \<Rightarrow> entry list \<Rightarrow> (error + store) \<times> fs_op list" where
  "process_files env dir now st [] = (Inr st, [])"
| "process_files env dir now st (e # es) =
     (case process_file env dir now st e of
        (Inl err, log) \<Rightarrow> (Inl err, log)
      | (Inr st1, log) \<Rightarrow>
          (case process_files env dir now st1 es of
             (r, log1) \<Rightarrow> (r, log @ log1)))"

subsection \<open>Dates of the posts, lines 171 to 198\<close>

text \<open>
  \<^verbatim>\<open>new Date(value)\<close>: a Date gives its own time value, a string is parsed, a number
  is clipped to the range of time values.
\<close>

definition to_time :: "env \<Rightarrow> date_value \<Rightarrow> int option" where
  "to_time env v =
     (case v of
        DDate t \<Rightarrow> t
      | DString s \<Rightarrow> date_parse env s
      | DNumber n \<Rightarrow> time_clip n)"

text \<open>\<^verbatim>\<open>moment(date).format(pattern)\<close>, which is "Invalid date" for an invalid Date.\<close>

definition format_moment :: "env \<Rightarrow> string \<Rightarrow> int option \<Rightarrow> string" where
  "format_moment env pattern t =
     (case t of
        None \<Rightarrow> ''Invalid date''
      | Some ms \<Rightarrow> moment_format env pattern ms)"

text \<open>Lines 171 to 183, for one post.\<close>

definition normalise :: "env \<Rightarrow> Post \<Rightarrow> Post" where
  "normalise env p =
     (let t = to_time env (date (meta p)) in
      p\<lparr> meta := (meta p)\<lparr> date := DDate t,
                            year := format_moment env ''YYYY'' t,
                            month := format_moment env ''MM'' t,
                            day := format_moment env ''DD'' t,
                            monthname := format_moment env ''MMMM'' t,
                            moment := t \<rparr> \<rparr>)"

text \<open>
  Lines 188 to 191: \<^verbatim>\<open>post.meta.date < now\<close> compares the two time values and is
  false for an invalid Date. A post that passes is handed on with its time value, which
  the sort reads.
\<close>

definition published :: "int \<Rightarrow> string \<times> Post \<Rightarrow> (int \<times> string \<times> Post) option" where
  "published now kp =
     (case date (meta (snd kp)) of
        DDate (Some t) \<Rightarrow> if t < now then Some (t, kp) else None
      | _ \<Rightarrow> None)"

text \<open>Lines 191 to 198, the function given to \<^verbatim>\<open>sort\<close>.\<close>

definition compare_dates :: "int \<times> 'a \<Rightarrow> int \<times> 'a \<Rightarrow> int" where
  "compare_dates a b =
     (if toISOString (fst a) < toISOString (fst b) then - 1
      else if toISOString (fst a) > toISOString (fst b) then 1
      else 0)"

text \<open>
  \<^verbatim>\<open>Array.prototype.sort\<close> with a comparison function, as a stable insertion sort:
  an element goes before the first element it does not compare greater than. (The order
  the engine gives to posts that compare equal is the order they had only since ES2019;
  nothing below depends on it.)
\<close>

fun insert_by :: "('a \<Rightarrow> 'a \<Rightarrow> int) \<Rightarrow> 'a \<Rightarrow> 'a list \<Rightarrow> 'a list" where
  "insert_by cmp x [] = [x]"
| "insert_by cmp x (y # ys) = (if cmp x y \<le> 0 then x # y # ys else y # insert_by cmp x ys)"

definition sort_by :: "('a \<Rightarrow> 'a \<Rightarrow> int) \<Rightarrow> 'a list \<Rightarrow> 'a list" where
  "sort_by cmp xs = foldr (insert_by cmp) xs []"

subsection \<open>Links, archive, tags and feeds, lines 203 to 312\<close>

text \<open>Lines 203 to 210, for the post at position \<open>i\<close> of \<^verbatim>\<open>posts\<close>.\<close>

definition link_post :: "string list \<Rightarrow> nat \<Rightarrow> Post \<Rightarrow> Post" where
  "link_post names i p =
     p\<lparr> prev := (if 0 < i then Some (names ! (i - 1)) else prev p),
        next := (if i < length names - 1 then Some (names ! (i + 1)) else next p) \<rparr>"

definition store_modify :: "store \<Rightarrow> string \<Rightarrow> (Post \<Rightarrow> Post) \<Rightarrow> store" where
  "store_modify st key f = map (\<lambda>kp. if fst kp = key then (fst kp, f (snd kp)) else kp) st"

definition link_posts :: "string list \<Rightarrow> store \<Rightarrow> store" where
  "link_posts names st =
     foldl (\<lambda>s i. store_modify s (names ! i) (link_post names i)) st [0..<length names]"

text \<open>
  Lines 224 to 234, for one post. A year that \<^verbatim>\<open>Object.prototype\<close> has finds a
  built-in value, and the month's list is then stored on that value.
\<close>

definition archive_push ::
  "(string \<times> (string \<times> string list) list) list \<Rightarrow> string \<Rightarrow> string \<Rightarrow> string
   \<Rightarrow> error + (string \<times> (string \<times> string list) list) list" where
  "archive_push arch y m ref =
     (case map_of arch y of
        Some months \<Rightarrow>
          (case bucket_push months m ref of
             Inl err \<Rightarrow> Inl err
           | Inr months1 \<Rightarrow> Inr (alist_put arch y months1))
      | None \<Rightarrow>
          if inherited y then Inl (PrototypeClash y)
          else
            (case bucket_push [] m ref of
               Inl err \<Rightarrow> Inl err
             | Inr months1 \<Rightarrow> Inr (arch @ [(y, months1)])))"

fun build_archive ::
  "(string \<times> (string \<times> string list) list) list \<Rightarrow> (string \<times> Post) list
   \<Rightarrow> error + (string \<times> (string \<times> string list) list) list" where
  "build_archive arch [] = Inr arch"
| "build_archive arch (kp # rest) =
     (case archive_push arch (year (meta (snd kp))) (month (meta (snd kp))) (fst kp) of
        Inl err \<Rightarrow> Inl err
      | Inr arch1 \<Rightarrow> build_archive arch1 rest)"

text \<open>Lines 237 to 242: the inner loop over the tags of one post, and the outer loop.\<close>

fun tag_post ::
  "(string \<times> string list) list \<Rightarrow> string \<Rightarrow> string list \<Rightarrow> error + (string \<times> string list) list" where
  "tag_post tg ref [] = Inr tg"
| "tag_post tg ref (t # ts) =
     (case bucket_push tg t ref of
        Inl err \<Rightarrow> Inl err
      | Inr tg1 \<Rightarrow> tag_post tg1 ref ts)"

fun build_tagged ::
  "(string \<times> string list) list \<Rightarrow> (string \<times> Post) list \<Rightarrow> error + (string \<times> string list) list" where
  "build_tagged tg [] = Inr tg"
| "build_tagged tg (kp # rest) =
     (case tag_post tg (fst kp) (tags (meta (snd kp))) of
        Inl err \<Rightarrow> Inl err
      | Inr tg1 \<Rightarrow> build_tagged tg1 rest)"

definition rfc822 :: string where
  "rfc822 = ''ddd, DD MMM YYYY HH:mm:ss ZZ''"

text \<open>The pattern of \<^verbatim>\<open>format()\<close> without an argument, moment's default format.\<close>

definition default_format :: string where
  "default_format = ''YYYY-MM-DDTHH:mm:ssZ''"

text \<open>Lines 245 to 268.\<close>

definition rss_item :: "env \<Rightarrow> string \<Rightarrow> Post \<Rightarrow> xdata" where
  "rss_item env url p =
     XObj [(''title'', XStr (title (meta p))),
           (''description'', XStr (html p)),
           (''link'', XStr (url @ ''/'' @ name p)),
           (''guid'', XStr (url @ ''/'' @ name p)),
           (''pubDate'', XStr (format_moment env rfc822 (moment (meta p))))]"

definition rssData :: "env \<Rightarrow> string \<Rightarrow> string \<Rightarrow> string \<Rightarrow> int \<Rightarrow> Post list \<Rightarrow> xdata" where
  "rssData env ttl descr url now latest_posts =
     XObj [(''@'', XObj [(''version'', XStr ''2.0'')]),
           (''channel'',
            XObj [(''title'', XStr ttl),
                  (''description'', XStr descr),
                  (''link'', XStr (url @ ''/rss20.xml'')),
                  (''lastBuildDate'', XStr (moment_format env rfc822 now)),
                  (''pubDate'', XStr (moment_format env rfc822 now)),
                  (''ttl'', XNum 1800),
                  (''item'', XArr (map (rss_item env url) latest_posts))])]"

text \<open>Lines 271 to 310. \<open>now2\<close> is the time \<^verbatim>\<open>moment()\<close> reads on line 280.\<close>

definition atom_entry :: "env \<Rightarrow> string \<Rightarrow> Post \<Rightarrow> xdata" where
  "atom_entry env url p =
     XObj [(''title'', XStr (title (meta p))),
           (''id'', XStr (url @ ''/'' @ name p)),
           (''link'',
            XArr [XObj [(''@'', XObj [(''href'', XStr (url @ ''/'' @ name p))])],
                  XObj [(''@'', XObj [(''href'', XStr (url @ ''/'' @ name p)),
                                      (''rel'', XStr ''self'')])]]),
           (''content'', XObj [(''@'', XObj [(''type'', XStr ''html'')]), (''#'', XStr (html p))]),
           (''updated'', XStr (format_moment env default_format (moment (meta p))))]"

definition atomData :: "env \<Rightarrow> string \<Rightarrow> string \<Rightarrow> string \<Rightarrow> int \<Rightarrow> Post list \<Rightarrow> xdata" where
  "atomData env ttl host url now2 latest_posts =
     XObj [(''@'', XObj [(''xmlns'', XStr ''http://www.w3.org/2005/Atom'')]),
           (''title'', XStr ttl),
           (''link'', XObj [(''@'', XObj [(''href'', XStr (url @ ''/atom.xml'')),
                                          (''rel'', XStr ''self'')])]),
           (''updated'', XStr (moment_format env default_format now2)),
           (''id'', XStr (''http://'' @ host @ ''/'')),
           (''author'', XObj [(''name'', XStr ''Andrew Chilton''),
                              (''email'', XStr ''andychilton@gmail.com'')]),
           (''entry'', XArr (map (atom_entry env url) latest_posts))]"

subsection \<open>The function\<close>

text \<open>
  Line 219, \<^verbatim>\<open>array.slice(0, end)\<close> for an integer \<open>end\<close>: the first \<open>end\<close>
  elements, and for a negative \<open>end\<close> all but the last \<open>- end\<close>.
\<close>

definition slice0 :: "int \<Rightarrow> 'a list \<Rightarrow> 'a list" where
  "slice0 end xs =
     take (nat (if end < 0 then max (int (length xs) + end) 0 else min end (int (length xs)))) xs"

text \<open>Line 57, \<^verbatim>\<open>xtend({}, defaults, opts)\<close>, for one field.\<close>

definition with_default :: "'a \<Rightarrow> 'a option \<Rightarrow> 'a" where
  "with_default d v = (case v of None \<Rightarrow> d | Some x \<Rightarrow> x)"

text \<open>Lines 171 to 183: every post of the table is normalised.\<close>

definition normalise_all :: "env \<Rightarrow> store \<Rightarrow> store" where
  "normalise_all env st = map (\<lambda>kp. (fst kp, normalise env (snd kp))) st"

text \<open>
  Lines 164 to 198, on the normalised table: the posts in the order of
  \<^verbatim>\<open>Object.keys\<close>, filtered and sorted. Each post comes with its key in the table.
\<close>

definition publish :: "int \<Rightarrow> store \<Rightarrow> (string \<times> Post) list" where
  "publish now st =
     map snd (sort_by compare_dates (List.map_filter (published now) (in_key_order st)))"

text \<open>The references a table of buckets holds, and those the archive holds.\<close>

definition bucket_refs :: "(string \<times> string list) list \<Rightarrow> string list" where
  "bucket_refs obj = concat (map snd obj)"

definition archive_refs :: "(string \<times> (string \<times> string list) list) list \<Rightarrow> string list" where
  "archive_refs arch = concat (map (\<lambda>ym. bucket_refs (snd ym)) arch)"

text \<open>
  Lines 163 to 323, from the table of posts the loop over the files leaves. \<open>host\<close> is
  \<^verbatim>\<open>opts.domain\<close>.
\<close>

definition assemble :: "env \<Rightarrow> Opts \<Rightarrow> string \<Rightarrow> int \<Rightarrow> int \<Rightarrow> store \<Rightarrow> error + Corpus" where
  "assemble env opts host now now2 st0 =
     (let st = normalise_all env st0;
          pub = publish now st;
          names = map fst pub;
          st1 = link_posts names st;
          latest_pub = slice0 (with_default 10 (latestCount opts)) (rev pub);
          url = ''http://'' @ host @ with_default [] (base opts);
          ttl = with_default [] (opt_title opts)
      in case build_archive [] pub of
           Inl err \<Rightarrow> Inl err
         | Inr arch \<Rightarrow>
             (case build_tagged [] pub of
                Inl err \<Rightarrow> Inl err
              | Inr tg \<Rightarrow>
                  Inr \<lparr> posts = names,
                        post = st1,
                        pages = [],
                        latest = map fst latest_pub,
                        archive = arch,
                        tagged = tg,
                        rss = data2xml env ''rss''
                                (rssData env ttl (with_default [] (opt_description opts)) url now
                                   (map snd latest_pub)),
                        atom = data2xml env ''feed''
                                 (atomData env ttl host url now2 (map snd latest_pub)) \<rparr>))"

text \<open>Lines 73 to 161 and the rest, once the configuration is accepted.\<close>

definition read_content ::
  "env \<Rightarrow> Opts \<Rightarrow> string \<Rightarrow> string \<Rightarrow> entry list option \<Rightarrow> int \<Rightarrow> int
   \<Rightarrow> (error + Corpus) \<times> fs_op list" where
  "read_content env opts host dir listing now now2 =
     (case listing of
        None \<Rightarrow> (Inl (FsError dir), [ReadDir dir])
      | Some entries \<Rightarrow>
          (case skip_directories dir entries of
             (Inl err, log) \<Rightarrow> (Inl err, ReadDir dir # log)
           | (Inr files, log) \<Rightarrow>
               (case process_files env dir now [] files of
                  (Inl err, log1) \<Rightarrow> (Inl err, ReadDir dir # log @ log1)
                | (Inr st, log1) \<Rightarrow>
                    (assemble env opts host now now2 st, ReadDir dir # log @ log1))))"

text \<open>
  \<^verbatim>\<open>readBlogSync(opts)\<close>. \<open>listing\<close> is the content directory, \<open>None\<close> where
  \<^verbatim>\<open>readdirSync\<close> throws. The result comes with the calls of \<^verbatim>\<open>fs\<close> the run
  made, in order. Lines 49 and 52 test for a falsy value: a field that is not given, or
  the empty string.
\<close>

definition readBlogSync ::
  "env \<Rightarrow> Opts \<Rightarrow> entry list option \<Rightarrow> int \<Rightarrow> int \<Rightarrow> (error + Corpus) \<times> fs_op list" where
  "readBlogSync env opts listing now now2 =
     (if with_default [] (domain opts) = [] then (Inl (Error ''Provide a domain''), [])
      else if with_default [] (contentDir opts) = [] then (Inl (Error ''Provide a contentDir''), [])
      else read_content env opts (with_default [] (domain opts)) (with_default [] (contentDir opts))
             listing now now2)"

text \<open>
  The date a file gives to its post: the \<^verbatim>\<open>date\<close> key of the object a metadata
  file decodes to. \<open>None\<close> for a file that is not a metadata file, that cannot be read
  or decoded, or whose object has no such key.
\<close>

definition supplied_date :: "env \<Rightarrow> entry \<Rightarrow> date_value option" where
  "supplied_date env e =
     (case file_ext (e_name e) of
        None \<Rightarrow> None
      | Some ext \<Rightarrow>
          (case e_contents e of
             None \<Rightarrow> None
           | Some contents \<Rightarrow>
               (case decode env [] (e_name e) ext contents of
                  Inr (Some ov) \<Rightarrow> ov_date ov
                | _ \<Rightarrow> None)))"

subsection \<open>A sample environment\<close>

text \<open>
  Concrete collaborators, a configuration and a way to write directory entries, for
  running the model on explicit inputs. \<open>sample_json\<close> and \<open>sample_date_parse\<close>
  agree with \<^verbatim>\<open>JSON.parse\<close> and \<^verbatim>\<open>Date.parse\<close> on the texts they list and
  reject every other text; \<open>sample_format\<close> prints in UTC; \<open>sample_data2xml\<close> prints
  the root element and the \<^verbatim>\<open>updated\<close> field of the data.
\<close>

definition sample_json :: "string \<Rightarrow> overlay option" where
  "sample_json s =
     (if s = ''{\"title\":\"Hi\",\"tags\":[\"x\"]}'' then
        Some \<lparr> ov_title = Some ''Hi'', ov_date = None, ov_tags = Some [''x''], ov_other = [] \<rparr>
      else if s = ''{\"date\":\"-000002-01-01T00:00:00.000Z\"}'' then
        Some \<lparr> ov_title = None, ov_date = Some (DString ''-000002-01-01T00:00:00.000Z''),
               ov_tags = None, ov_other = [] \<rparr>
      else if s = ''{\"date\":\"-000001-01-01T00:00:00.000Z\"}'' then
        Some \<lparr> ov_title = None, ov_date = Some (DString ''-000001-01-01T00:00:00.000Z''),
               ov_tags = None, ov_other = [] \<rparr>
      else if s = ''{\"date\":\"2013-05-17T00:00:00.000Z\",\"tags\":[\"x\"]}'' then
        Some \<lparr> ov_title = None, ov_date = Some (DString ''2013-05-17T00:00:00.000Z''),
               ov_tags = Some [''x''], ov_other = [] \<rparr>
      else if s = ''{\"date\":\"2999-01-01T00:00:00.000Z\",\"tags\":[\"x\"]}'' then
        Some \<lparr> ov_title = None, ov_date = Some (DString ''2999-01-01T00:00:00.000Z''),
               ov_tags = Some [''x''], ov_other = [] \<rparr>
      else None)"

definition sample_date_parse :: "string \<Rightarrow> int option" where
  "sample_date_parse s =
     (if s = ''-000002-01-01T00:00:00.000Z'' then Some (- 62230291200000)
      else if s = ''-000001-01-01T00:00:00.000Z'' then Some (- 62198755200000)
      else if s = ''2013-05-17T00:00:00.000Z'' then Some 1368748800000
      else if s = ''2999-01-01T00:00:00.000Z'' then Some 32472144000000
      else None)"

definition sample_format :: "string \<Rightarrow> int \<Rightarrow> string" where
  "sample_format pattern t =
     (if pattern = ''YYYY'' then take 4 (toISOString t)
      else if pattern = ''MM'' then take 2 (drop 5 (toISOString t))
      else if pattern = ''DD'' then take 2 (drop 8 (toISOString t))
      else toISOString t)"

definition sample_data2xml :: "string \<Rightarrow> xdata \<Rightarrow> string" where
  "sample_data2xml root d =
     (case d of
        XObj props \<Rightarrow>
          (case map_of props ''updated'' of
             Some (XStr s) \<Rightarrow> ''<'' @ root @ ''><updated>'' @ s @ ''</updated></'' @ root @ ''>''
           | _ \<Rightarrow> ''<'' @ root @ ''/>'')
      | _ \<Rightarrow> ''<'' @ root @ ''/>'')"

definition sample_env :: env where
  "sample_env =
     \<lparr> json_parse = sample_json,
       yaml_load = (\<lambda>s. None),
       ini_decode = (\<lambda>s. None),
       marked = (\<lambda>s. ''<p>'' @ s @ ''</p>''),
       textile = (\<lambda>s. ''<p>'' @ s @ ''</p>''),
       escape = (\<lambda>s. s),
       date_parse = sample_date_parse,
       moment_format = sample_format,
       data2xml = sample_data2xml \<rparr>"

definition sample_opts :: Opts where
  "sample_opts =
     \<lparr> domain = Some ''example.org'', contentDir = Some ''content'', opt_title = None,
       opt_description = None, base = None, latestCount = None, indexCount = None \<rparr>"

definition regular :: "string \<Rightarrow> string \<Rightarrow> entry" where
  "regular filename contents =
     \<lparr> e_name = filename, e_isDirectory = Some False, e_contents = Some contents \<rparr>"

section \<open>Facts about the model\<close>

subsection \<open>Evaluating dates\<close>

text \<open>
  The equation of \<open>digits10\<close> rewrites its own right-hand side, so it is replaced by two
  guarded rules; with them the simplifier computes \<open>toISOString\<close> of a numeral.
\<close>

lemma digits10_small: "n < 10 \<Longrightarrow> digits10 n = [''0123456789'' ! n]"
  by (subst digits10.simps) simp

lemma digits10_large:
  "\<not> n < 10 \<Longrightarrow> digits10 n = digits10 (n div 10) @ [''0123456789'' ! (n mod 10)]"
  by (subst digits10.simps) simp

declare digits10.simps [simp del]

lemma replicate_numeral: "replicate (numeral k) x = x # replicate (pred_numeral k) x"
  by (simp add: numeral_eq_Suc)

lemmas iso_defs =
  toISOString_def iso_format_def civil_from_days_def civil_in_era_def civil_in_year_def
  month_of_def month_from_march_def day_of_year_def year_of_era_def
  year_string_def pad_int_def digits10_small digits10_large replicate_numeral

lemma iso_facts:
  "toISOString 1793664000000 = ''2026-11-03T00:00:00.000Z''"
  "toISOString 1793664000001 = ''2026-11-03T00:00:00.001Z''"
  "toISOString 1793664001000 = ''2026-11-03T00:00:01.000Z''"
  "toISOString 1368748800000 = ''2013-05-17T00:00:00.000Z''"
  "toISOString 32472144000000 = ''2999-01-01T00:00:00.000Z''"
  "toISOString (- 62230291200000) = ''-000002-01-01T00:00:00.000Z''"
  "toISOString (- 62198755200000) = ''-000001-01-01T00:00:00.000Z''"
  by (simp_all add: iso_defs)

subsection \<open>Tables and the loop over the files\<close>

lemma map_of_alist_put:
  "map_of (alist_put al key v) k = (if k = key then Some v else map_of al k)"
  by (induction al key v rule: alist_put.induct) auto

lemma keys_alist_put: "fst ` set (alist_put al key v) = insert key (fst ` set al)"
  by (induction al key v rule: alist_put.induct) auto

lemma distinct_alist_put:
  "distinct (map fst al) \<Longrightarrow> distinct (map fst (alist_put al key v))"
  by (induction al key v rule: alist_put.induct) (auto simp: keys_alist_put)

lemma skip_directories_files:
  "skip_directories dir es = (Inr files, log) \<Longrightarrow>
   files = filter (\<lambda>e. e_isDirectory e = Some False) es"
  by (induction es arbitrary: files log)
     (auto simp: Let_def split: option.splits prod.splits sum.splits if_splits)

text \<open>What one file does to the table, when the run goes on.\<close>

lemma process_file_skip:
  "\<not> validExt_truthy (file_ext (e_name e)) \<Longrightarrow> process_file env dir now st e = (Inr st, [])"
  by (auto simp: process_file_def validExt_truthy_def split: option.splits)

lemma process_file_Inr:
  assumes "fst (process_file env dir now st e) = Inr st1"
    and "validExt_truthy (file_ext (e_name e))"
    and "\<not> inherited (file_basename (e_name e))"
  shows "\<exists>p. st1 = alist_put st (file_basename (e_name e)) p"
  using assms
  by (auto simp: process_file_def validExt_truthy_def Let_def split: option.splits sum.splits if_splits)

lemma process_file_inherited:
  assumes "fst (process_file env dir now st e) = Inr st1"
    and "inherited (file_basename (e_name e))"
  shows "st1 = st"
  using assms
  by (auto simp: process_file_def Let_def split: option.splits sum.splits if_splits)

lemma process_file_cases:
  assumes "fst (process_file env dir now st e) = Inr st1"
  shows "st1 = st \<or>
         (validExt_truthy (file_ext (e_name e)) \<and> \<not> inherited (file_basename (e_name e))
          \<and> (\<exists>p. st1 = alist_put st (file_basename (e_name e)) p))"
proof (cases "validExt_truthy (file_ext (e_name e))")
  case False
  with assms show ?thesis by (simp add: process_file_skip)
next
  case True
  then show ?thesis
    using process_file_Inr [OF assms True] process_file_inherited [OF assms] by blast
qed

lemma process_file_keys:
  assumes "fst (process_file env dir now st e) = Inr st1"
  shows "fst ` set st1 =
         fst ` set st \<union>
         (if validExt_truthy (file_ext (e_name e)) \<and> \<not> inherited (file_basename (e_name e))
          then {file_basename (e_name e)} else {})"
proof (cases "validExt_truthy (file_ext (e_name e)) \<and> \<not> inherited (file_basename (e_name e))")
  case True
  with process_file_Inr [OF assms] obtain p where
    "st1 = alist_put st (file_basename (e_name e)) p" by blast
  then have "fst ` set st1 = insert (file_basename (e_name e)) (fst ` set st)"
    by (simp add: keys_alist_put)
  with True show ?thesis by auto
next
  case False
  with process_file_cases [OF assms] have "st1 = st" by blast
  with False show ?thesis by auto
qed

lemma process_file_distinct:
  assumes "fst (process_file env dir now st e) = Inr st1" and "distinct (map fst st)"
  shows "distinct (map fst st1)"
  using process_file_cases [OF assms(1)] assms(2) by (auto simp: distinct_alist_put)

lemma process_files_Cons_Inr:
  "fst (process_files env dir now st (e # es)) = Inr st2 \<longleftrightarrow>
   (\<exists>st1. fst (process_file env dir now st e) = Inr st1 \<and> fst (process_files env dir now st1 es) = Inr st2)"
  by (auto split: prod.splits sum.splits)

lemma process_files_distinct:
  "fst (process_files env dir now st es) = Inr st1 \<Longrightarrow> distinct (map fst st) \<Longrightarrow> distinct (map fst st1)"
proof (induction es arbitrary: st)
  case Nil
  then show ?case by simp
next
  case (Cons e es)
  then show ?case
    unfolding process_files_Cons_Inr using process_file_distinct by blast
qed

lemma process_files_keys:
  "fst (process_files env dir now st es) = Inr st1 \<Longrightarrow>
   fst ` set st1 =
   fst ` set st \<union>
   {file_basename (e_name e) | e.
      e \<in> set es \<and> validExt_truthy (file_ext (e_name e)) \<and> \<not> inherited (file_basename (e_name e))}"
proof (induction es arbitrary: st)
  case Nil
  then show ?case by simp
next
  case (Cons e es)
  from Cons.prems obtain st0 where
    a: "fst (process_file env dir now st e) = Inr st0" and
    b: "fst (process_files env dir now st0 es) = Inr st1"
    unfolding process_files_Cons_Inr by blast
  show ?case
    unfolding Cons.IH [OF b] process_file_keys [OF a] by auto
qed

lemma process_file_rejected_json:
  assumes "file_ext (e_name f) = Some ''json''"
    and "e_contents f = Some contents"
    and "json_parse env contents = None"
  shows "process_file env dir now st f = (Inl (JsonParseExit (e_name f)), [ReadFile (dir @ ''/'' @ e_name f)])"
  using assms
  by (simp add: process_file_def validExt_truthy_def validExt_def decode_def Let_def)

lemma process_files_append_Inl:
  assumes "fst (process_files env dir now st pre) = Inr st1"
    and "fst (process_file env dir now st1 f) = Inl err"
  shows "fst (process_files env dir now st (pre @ f # rest)) = Inl err"
  using assms
proof (induction pre arbitrary: st)
  case Nil
  then show ?case by (auto split: prod.splits sum.splits)
next
  case (Cons e pre)
  from Cons.prems(1) obtain st0 where
    a: "fst (process_file env dir now st e) = Inr st0" and
    b: "fst (process_files env dir now st0 pre) = Inr st1"
    unfolding process_files_Cons_Inr by blast
  from Cons.IH [OF b Cons.prems(2)] a show ?case
    by (auto split: prod.splits sum.splits)
qed

lemma process_files_rejected_json:
  assumes "f \<in> set files"
    and "file_ext (e_name f) = Some ''json''"
    and "e_contents f = Some contents"
    and "json_parse env contents = None"
  shows "\<exists>err. fst (process_files env dir now st files) = Inl err"
  using assms(1)
proof (induction files arbitrary: st)
  case Nil
  then show ?case by simp
next
  case (Cons e files)
  show ?case
  proof (cases "fst (process_file env dir now st e)")
    case (Inl err)
    then show ?thesis by (auto split: prod.splits sum.splits)
  next
    case (Inr st1)
    with Cons.prems have "e \<noteq> f"
      using process_file_rejected_json [OF assms(2-4), of dir now st] by auto
    with Cons.prems have "f \<in> set files" by simp
    from Cons.IH [OF this, of st1] obtain err where
      "fst (process_files env dir now st1 files) = Inl err" by blast
    with Inr show ?thesis by (auto split: prod.splits sum.splits)
  qed
qed

lemma readBlogSync_files:
  assumes "domain opts = Some host" and "host \<noteq> []"
    and "contentDir opts = Some dir" and "dir \<noteq> []"
    and "fst (skip_directories dir entries) = Inr files"
  shows "fst (readBlogSync env opts (Some entries) now now2) =
         (case fst (process_files env dir now [] files) of
            Inl err \<Rightarrow> Inl err
          | Inr st \<Rightarrow> assemble env opts host now now2 st)"
  using assms
  by (auto simp: readBlogSync_def read_content_def with_default_def split: prod.splits sum.splits)

text \<open>The definitions a run on an explicit directory unfolds.\<close>

lemmas run_defs =
  readBlogSync_def read_content_def with_default_def regular_def
  process_file_def file_ext_def file_basename_def validExt_truthy_def validExt_def inherited_def
  Object_prototype_def strip_initial_numbers_def is_digit_def decode_def set_contents_def
  default_post_def xtend_def assemble_def normalise_all_def publish_def normalise_def to_time_def
  in_key_order_def body_exts_def slice0_def
  is_array_index_def published_def List.map_filter_def sort_by_def link_posts_def Let_def

lemmas sample_defs =
  sample_env_def sample_opts_def sample_json_def sample_date_parse_def sample_format_def
  sample_data2xml_def

lemmas build_defs =
  bucket_push_def archive_push_def rssData_def atomData_def compare_dates_def link_post_def
  store_modify_def format_moment_def default_format_def rfc822_def

subsection \<open>Sorting, linking and the buckets\<close>

lemma set_insert_by: "set (insert_by cmp x xs) = insert x (set xs)"
  by (induction xs) auto

lemma set_sort_by: "set (sort_by cmp xs) = set xs"
  unfolding sort_by_def by (induction xs) (auto simp: set_insert_by)

lemma set_in_key_order: "set (in_key_order obj) = set obj"
  by (auto simp: in_key_order_def)

lemma published_Some:
  "published now kp = Some (t, kq) \<Longrightarrow> kq = kp \<and> date (meta (snd kp)) = DDate (Some t) \<and> t < now"
  by (auto simp: published_def split: date_value.splits option.splits if_splits)

lemma publish_member:
  assumes "kp \<in> set (publish now st)"
  shows "kp \<in> set st \<and> (\<exists>t. date (meta (snd kp)) = DDate (Some t) \<and> t < now)"
proof -
  from assms obtain t where "(t, kp) \<in> set (List.map_filter (published now) (in_key_order st))"
    by (auto simp: publish_def set_sort_by)
  then obtain kq where "kq \<in> set st" and "published now kq = Some (t, kp)"
    by (auto simp: List.map_filter_def set_in_key_order)
  with published_Some [of now kq t kp] show ?thesis by auto
qed

lemma keys_normalise_all: "map fst (normalise_all env st) = map fst st"
  by (simp add: normalise_all_def)

lemma store_modify_keys: "map fst (store_modify st key f) = map fst st"
  by (induction st) (auto simp: store_modify_def)

lemma link_post_meta: "meta (link_post names i p) = meta p"
  by (simp add: link_post_def)

lemma store_modify_meta:
  "(\<And>p. meta (f p) = meta p) \<Longrightarrow>
   map (\<lambda>kp. (fst kp, meta (snd kp))) (store_modify st key f) = map (\<lambda>kp. (fst kp, meta (snd kp))) st"
  by (induction st) (auto simp: store_modify_def)

lemma link_fold_meta:
  "map (\<lambda>kp. (fst kp, meta (snd kp)))
     (foldl (\<lambda>s i. store_modify s (names ! i) (link_post names i)) st idx)
   = map (\<lambda>kp. (fst kp, meta (snd kp))) st"
  by (induction idx arbitrary: st) (simp_all add: store_modify_meta link_post_meta)

lemma link_posts_meta:
  "map (\<lambda>kp. (fst kp, meta (snd kp))) (link_posts names st) = map (\<lambda>kp. (fst kp, meta (snd kp))) st"
  by (simp add: link_posts_def link_fold_meta)

lemma link_posts_keys: "map fst (link_posts names st) = map fst st"
proof -
  have "map fst (map (\<lambda>kp. (fst kp, meta (snd kp))) (link_posts names st))
        = map fst (map (\<lambda>kp. (fst kp, meta (snd kp))) st)"
    by (simp only: link_posts_meta)
  then show ?thesis by (simp add: comp_def)
qed

lemma map_of_meta:
  "map_of (map (\<lambda>kp. (fst kp, meta (snd kp))) st) k = map_option meta (map_of st k)"
  by (induction st) auto

lemma link_posts_lookup:
  "map_option meta (map_of (link_posts names st) k) = map_option meta (map_of st k)"
  by (simp add: link_posts_meta flip: map_of_meta)

text \<open>References in the buckets come from the posts pushed.\<close>

lemma set_alist_put: "set (alist_put al key v) \<subseteq> insert (key, v) (set al)"
  by (induction al key v rule: alist_put.induct) auto

lemma bucket_push_refs:
  assumes "bucket_push obj key ref = Inr obj1"
  shows "set (bucket_refs obj1) \<subseteq> insert ref (set (bucket_refs obj))"
proof (cases "map_of obj key")
  case None
  with assms show ?thesis
    by (fastforce simp: bucket_push_def bucket_refs_def split: if_splits)
next
  case (Some bucket)
  then have "(key, bucket) \<in> set obj" by (rule map_of_SomeD)
  moreover from Some assms have "obj1 = alist_put obj key (bucket @ [ref])"
    by (simp add: bucket_push_def)
  ultimately show ?thesis
    using set_alist_put [of obj key "bucket @ [ref]"]
    by (fastforce simp: bucket_refs_def)
qed

lemma tag_post_refs:
  "tag_post tg ref ts = Inr tg1 \<Longrightarrow> set (bucket_refs tg1) \<subseteq> insert ref (set (bucket_refs tg))"
proof (induction ts arbitrary: tg)
  case Nil
  then show ?case by auto
next
  case (Cons t ts)
  then show ?case
    by (fastforce split: sum.splits dest: bucket_push_refs)
qed

lemma build_tagged_refs:
  "build_tagged tg pub = Inr tg1 \<Longrightarrow>
   set (bucket_refs tg1) \<subseteq> set (bucket_refs tg) \<union> fst ` set pub"
proof (induction pub arbitrary: tg)
  case Nil
  then show ?case by auto
next
  case (Cons kp pub)
  then show ?case
    by (fastforce split: sum.splits dest: tag_post_refs)
qed

lemma archive_push_refs:
  assumes "archive_push arch y m ref = Inr arch1"
  shows "set (archive_refs arch1) \<subseteq> insert ref (set (archive_refs arch))"
proof (cases "map_of arch y")
  case None
  with assms obtain months1 where
    a: "bucket_push [] m ref = Inr months1" and b: "arch1 = arch @ [(y, months1)]"
    by (auto simp: archive_push_def split: if_splits sum.splits)
  from bucket_push_refs [OF a] b show ?thesis
    by (auto simp: archive_refs_def bucket_refs_def)
next
  case (Some months)
  then have c: "(y, months) \<in> set arch" by (rule map_of_SomeD)
  from Some assms obtain months1 where
    a: "bucket_push months m ref = Inr months1" and b: "arch1 = alist_put arch y months1"
    by (auto simp: archive_push_def split: sum.splits)
  have "set (bucket_refs months) \<subseteq> set (archive_refs arch)"
    using c by (auto simp: archive_refs_def)
  with bucket_push_refs [OF a] have "set (bucket_refs months1) \<subseteq> insert ref (set (archive_refs arch))"
    by auto
  moreover have "set (archive_refs arch1) \<subseteq> set (bucket_refs months1) \<union> set (archive_refs arch)"
    using set_alist_put [of arch y months1] unfolding b
    by (fastforce simp: archive_refs_def)
  ultimately show ?thesis by auto
qed

lemma build_archive_refs:
  "build_archive arch pub = Inr arch1 \<Longrightarrow>
   set (archive_refs arch1) \<subseteq> set (archive_refs arch) \<union> fst ` set pub"
proof (induction pub arbitrary: arch)
  case Nil
  then show ?case by auto
next
  case (Cons kp pub)
  then show ?case
    by (fastforce split: sum.splits dest: archive_push_refs)
qed

subsection \<open>What a result says about the run\<close>

lemma readBlogSync_Inr:
  assumes "fst (readBlogSync env opts (Some entries) now now2) = Inr c"
  shows "\<exists>host dir st0.
           fst (process_files env dir now [] (filter (\<lambda>e. e_isDirectory e = Some False) entries)) = Inr st0
           \<and> assemble env opts host now now2 st0 = Inr c"
proof -
  let ?dir = "with_default [] (contentDir opts)"
  let ?files = "filter (\<lambda>e. e_isDirectory e = Some False) entries"
  from assms have
    "fst (process_files env ?dir now [] ?files) = Inr (projr (fst (process_files env ?dir now [] ?files)))
     \<and> assemble env opts (with_default [] (domain opts)) now now2
           (projr (fst (process_files env ?dir now [] ?files))) = Inr c"
    by (auto simp: readBlogSync_def read_content_def split: if_splits prod.splits sum.splits
             dest!: skip_directories_files)
  then show ?thesis by blast
qed

lemma map_slice0: "map f (slice0 n xs) = slice0 n (map f xs)"
  by (simp add: slice0_def take_map)

lemma set_slice0: "set (slice0 n xs) \<subseteq> set xs"
  unfolding slice0_def by (rule set_take_subset)

lemma assemble_Inr:
  assumes "assemble env opts host now now2 st0 = Inr c"
  shows "posts c = map fst (publish now (normalise_all env st0))"
    and "post c = link_posts (posts c) (normalise_all env st0)"
    and "latest c = slice0 (with_default 10 (latestCount opts)) (rev (posts c))"
    and "build_archive [] (publish now (normalise_all env st0)) = Inr (archive c)"
    and "build_tagged [] (publish now (normalise_all env st0)) = Inr (tagged c)"
  using assms
  by (auto simp: assemble_def Let_def map_slice0 rev_map split: sum.splits)

lemma corpus_refs_published:
  assumes "fst (readBlogSync env opts (Some entries) now now2) = Inr c"
  shows "set (latest c) \<subseteq> set (posts c)"
    and "set (archive_refs (archive c)) \<subseteq> set (posts c)"
    and "set (bucket_refs (tagged c)) \<subseteq> set (posts c)"
proof -
  from readBlogSync_Inr [OF assms] obtain host dir st0 where
    a: "assemble env opts host now now2 st0 = Inr c" by blast
  show "set (latest c) \<subseteq> set (posts c)"
    unfolding assemble_Inr(3) [OF a] using set_slice0 [of _ "rev (posts c)"] by auto
  show "set (archive_refs (archive c)) \<subseteq> set (posts c)"
    using build_archive_refs [OF assemble_Inr(4) [OF a]]
    by (simp add: assemble_Inr(1) [OF a] archive_refs_def)
  show "set (bucket_refs (tagged c)) \<subseteq> set (posts c)"
    using build_tagged_refs [OF assemble_Inr(5) [OF a]]
    by (simp add: assemble_Inr(1) [OF a] bucket_refs_def)
qed

lemma posts_published:
  assumes "fst (readBlogSync env opts (Some entries) now now2) = Inr c"
    and "n \<in> set (posts c)"
  shows "\<exists>p t. map_of (post c) n = Some p \<and> date (meta p) = DDate (Some t) \<and> t < now"
proof -
  from readBlogSync_Inr [OF assms(1)] obtain host dir st0 where
    f: "fst (process_files env dir now [] (filter (\<lambda>e. e_isDirectory e = Some False) entries)) = Inr st0"
    and a: "assemble env opts host now now2 st0 = Inr c" by blast
  let ?st = "normalise_all env st0"
  from process_files_distinct [OF f] have d: "distinct (map fst ?st)"
    by (simp add: keys_normalise_all)
  from assms(2) obtain q where q: "(n, q) \<in> set (publish now ?st)"
    unfolding assemble_Inr(1) [OF a] by auto
  from publish_member [OF q] obtain t where
    m: "(n, q) \<in> set ?st" and t: "date (meta q) = DDate (Some t)" "t < now" by auto
  from d m have "map_of ?st n = Some q" by simp
  with link_posts_lookup [of "posts c" ?st n] obtain p where
    "map_of (post c) n = Some p" and "meta p = meta q"
    unfolding assemble_Inr(2) [OF a] by auto
  with t show ?thesis by auto
qed

lemma read_files_have_posts:
  assumes "fst (readBlogSync env opts (Some entries) now now2) = Inr c"
    and "e \<in> set entries" and "e_isDirectory e = Some False"
    and "validExt_truthy (file_ext (e_name e))"
    and "\<not> inherited (file_basename (e_name e))"
  shows "file_basename (e_name e) \<in> fst ` set (post c)"
proof -
  from readBlogSync_Inr [OF assms(1)] obtain host dir st0 where
    f: "fst (process_files env dir now [] (filter (\<lambda>e. e_isDirectory e = Some False) entries)) = Inr st0"
    and a: "assemble env opts host now now2 st0 = Inr c" by blast
  from assms(2-5) have "file_basename (e_name e) \<in> fst ` set st0"
    unfolding process_files_keys [OF f] by auto
  also have "fst ` set st0 = set (map fst (post c))"
    unfolding assemble_Inr(2) [OF a] link_posts_keys keys_normalise_all by simp
  finally show ?thesis by simp
qed

text \<open>
  \<^verbatim>\<open>latest\<close> is \<^verbatim>\<open>posts\<close> reversed and cut to \<^verbatim>\<open>latestCount\<close> entries
  (10 when the configuration gives none), for a count that is not negative.
\<close>

lemma latest_is_reversed_prefix:
  assumes "fst (readBlogSync env opts (Some entries) now now2) = Inr c"
    and "0 \<le> with_default 10 (latestCount opts)"
  shows "latest c = take (nat (with_default 10 (latestCount opts))) (rev (posts c))
       \<and> int (length (latest c)) = min (with_default 10 (latestCount opts)) (int (length (posts c)))"
proof -
  from readBlogSync_Inr [OF assms(1)] obtain host dir st0 where
    a: "assemble env opts host now now2 st0 = Inr c" by blast
  from assms(2) show ?thesis
    unfolding assemble_Inr(3) [OF a] by (auto simp: slice0_def min_def)
qed

subsection \<open>Order and links of the published posts\<close>

text \<open>The order of the sort.\<close>

lemma compare_dates_le: "compare_dates a b \<le> 0 \<longleftrightarrow> toISOString (fst a) \<le> toISOString (fst b)"
  by (auto simp: compare_dates_def)

lemma sorted_insert_by:
  "sorted_wrt (\<lambda>a b. toISOString (fst a) \<le> toISOString (fst b)) xs \<Longrightarrow>
   sorted_wrt (\<lambda>a b. toISOString (fst a) \<le> toISOString (fst b)) (insert_by compare_dates x xs)"
proof (induction xs)
  case Nil
  then show ?case by simp
next
  case (Cons y ys)
  show ?case
  proof (cases "compare_dates x y \<le> 0")
    case True
    with Cons.prems show ?thesis
      by (auto simp: compare_dates_le)
  next
    case False
    then have "toISOString (fst y) \<le> toISOString (fst x)"
      by (simp add: compare_dates_le)
    with False Cons show ?thesis
      by (auto simp: set_insert_by)
  qed
qed

lemma sorted_sort_by:
  "sorted_wrt (\<lambda>a b. toISOString (fst a) \<le> toISOString (fst b)) (sort_by compare_dates xs)"
  unfolding sort_by_def by (induction xs) (simp_all add: sorted_insert_by)

text \<open>The keys stay distinct through the filter and the sort.\<close>

lemma distinct_insert_by:
  "distinct (map f (insert_by cmp x xs)) \<longleftrightarrow> distinct (map f (x # xs))"
  by (induction xs) (auto simp: set_insert_by)

lemma distinct_sort_by: "distinct (map f (sort_by cmp xs)) \<longleftrightarrow> distinct (map f xs)"
  unfolding sort_by_def by (induction xs) (auto simp: distinct_insert_by set_sort_by [unfolded sort_by_def])

lemma distinct_insort_key:
  "distinct (map f (insort_key g x xs)) \<longleftrightarrow> distinct (map f (x # xs))"
  by (induction xs) (auto simp: set_insort_key)

lemma distinct_sort_key: "distinct (map f (sort_key g xs)) \<longleftrightarrow> distinct (map f xs)"
  by (induction xs) (auto simp: distinct_insort_key)

lemma distinct_in_key_order:
  "distinct (map fst obj) \<Longrightarrow> distinct (map fst (in_key_order obj))"
  by (auto simp: in_key_order_def distinct_sort_key distinct_map_filter)

lemma map_filter_published:
  "map snd (List.map_filter (published now) xs) = filter (\<lambda>kp. published now kp \<noteq> None) xs"
proof (induction xs)
  case Nil
  then show ?case by (simp add: List.map_filter_def)
next
  case (Cons kp xs)
  then show ?case
    by (cases "published now kp") (auto simp: List.map_filter_def dest: published_Some)
qed

lemma distinct_publish:
  assumes "distinct (map fst st)"
  shows "distinct (map fst (publish now st))"
proof -
  have "distinct (map fst (filter (\<lambda>kp. published now kp \<noteq> None) (in_key_order st)))"
    using distinct_in_key_order [OF assms] by (rule distinct_map_filter)
  then have "distinct (map (fst \<circ> snd) (List.map_filter (published now) (in_key_order st)))"
    by (simp add: map_filter_published flip: map_map)
  then show ?thesis
    by (simp add: publish_def distinct_sort_by)
qed

text \<open>The links.\<close>

lemma map_of_store_modify:
  "map_of (store_modify st key f) k = (if k = key then map_option f (map_of st k) else map_of st k)"
  by (induction st) (auto simp: store_modify_def)

lemma link_fold_lookup:
  assumes "distinct names" and "i < length names" and "j \<le> length names"
  shows "map_of (foldl (\<lambda>s i. store_modify s (names ! i) (link_post names i)) st [0..<j]) (names ! i)
         = map_option (if i < j then link_post names i else (\<lambda>p. p)) (map_of st (names ! i))"
  using assms(3)
proof (induction j)
  case 0
  then show ?case by (simp add: option.map_ident)
next
  case (Suc j)
  then have j: "j < length names" by simp
  with assms(1,2) have "names ! i = names ! j \<longleftrightarrow> i = j"
    by (simp add: nth_eq_iff_index_eq)
  with Suc show ?case
    by (auto simp: map_of_store_modify option.map_ident less_Suc_eq)
qed

lemma link_posts_lookup_nth:
  assumes "distinct names" and "i < length names"
  shows "map_of (link_posts names st) (names ! i) = map_option (link_post names i) (map_of st (names ! i))"
  using link_fold_lookup [OF assms, of "length names" st] assms(2)
  by (simp add: link_posts_def)

text \<open>No file sets \<^verbatim>\<open>prev\<close> or \<^verbatim>\<open>next\<close>.\<close>

lemma process_file_unlinked:
  assumes "fst (process_file env dir now st e) = Inr st1"
    and "\<forall>kp \<in> set st. prev (snd kp) = None \<and> next (snd kp) = None"
  shows "\<forall>kp \<in> set st1. prev (snd kp) = None \<and> next (snd kp) = None"
proof (cases "validExt_truthy (file_ext (e_name e)) \<and> \<not> inherited (file_basename (e_name e))")
  case False
  with process_file_cases [OF assms(1)] assms(2) show ?thesis by auto
next
  case True
  let ?b = "file_basename (e_name e)"
  let ?p = "case map_of st ?b of None \<Rightarrow> default_post env now ?b | Some q \<Rightarrow> q"
  have p: "prev ?p = None \<and> next ?p = None"
    using assms(2) by (fastforce simp: default_post_def split: option.splits dest: map_of_SomeD)
  from assms(1) True obtain p1 where
    "st1 = alist_put st ?b p1" and "prev p1 = prev ?p \<and> next p1 = next ?p"
    by (auto simp: process_file_def validExt_truthy_def set_contents_def Let_def
             split: option.splits sum.splits if_splits)
  with p assms(2) set_alist_put [of st ?b p1] show ?thesis by fastforce
qed

lemma process_files_unlinked:
  "fst (process_files env dir now st es) = Inr st1 \<Longrightarrow>
   \<forall>kp \<in> set st. prev (snd kp) = None \<and> next (snd kp) = None \<Longrightarrow>
   \<forall>kp \<in> set st1. prev (snd kp) = None \<and> next (snd kp) = None"
proof (induction es arbitrary: st)
  case Nil
  then show ?case by simp
next
  case (Cons e es)
  from Cons.prems(1) obtain st0 where
    a: "fst (process_file env dir now st e) = Inr st0" and
    b: "fst (process_files env dir now st0 es) = Inr st1"
    unfolding process_files_Cons_Inr by blast
  from Cons.IH [OF b process_file_unlinked [OF a Cons.prems(2)]] show ?case .
qed

lemma posts_links:
  assumes "fst (readBlogSync env opts (Some entries) now now2) = Inr c"
    and "i < length (posts c)"
  shows "\<exists>p. map_of (post c) (posts c ! i) = Some p
           \<and> prev p = (if 0 < i then Some (posts c ! (i - 1)) else None)
           \<and> next p = (if i + 1 < length (posts c) then Some (posts c ! (i + 1)) else None)"
proof -
  from readBlogSync_Inr [OF assms(1)] obtain host dir st0 where
    f: "fst (process_files env dir now [] (filter (\<lambda>e. e_isDirectory e = Some False) entries)) = Inr st0"
    and a: "assemble env opts host now now2 st0 = Inr c" by blast
  let ?st = "normalise_all env st0"
  from process_files_distinct [OF f] have d: "distinct (map fst ?st)"
    by (simp add: keys_normalise_all)
  then have dn: "distinct (posts c)"
    unfolding assemble_Inr(1) [OF a] by (rule distinct_publish)
  from assms(2) obtain q where q: "(posts c ! i, q) \<in> set (publish now ?st)"
    unfolding assemble_Inr(1) [OF a]
    by (metis (no_types, lifting) length_map nth_map nth_mem prod.collapse)
  from publish_member [OF q] have m: "(posts c ! i, q) \<in> set ?st" by simp
  with d have l: "map_of ?st (posts c ! i) = Some q" by simp
  from m obtain q0 where "(posts c ! i, q0) \<in> set st0" and "q = normalise env q0"
    by (auto simp: normalise_all_def)
  with process_files_unlinked [OF f] have u: "prev q = None \<and> next q = None"
    by (fastforce simp: normalise_def Let_def)
  have "map_of (post c) (posts c ! i) = Some (link_post (posts c) i q)"
    unfolding assemble_Inr(2) [OF a] using link_posts_lookup_nth [OF dn assms(2), of ?st] l by simp
  with u assms(2) show ?thesis
    by (auto simp: link_post_def)
qed

lemma posts_sorted_by_iso_text:
  assumes "fst (readBlogSync env opts (Some entries) now now2) = Inr c"
  shows "\<exists>ts. length ts = length (posts c)
           \<and> (\<forall>i < length (posts c). \<exists>p. map_of (post c) (posts c ! i) = Some p
                  \<and> date (meta p) = DDate (Some (ts ! i)))
           \<and> sorted_wrt (\<lambda>a b. toISOString a \<le> toISOString b) ts"
proof -
  from readBlogSync_Inr [OF assms(1)] obtain host dir st0 where
    f: "fst (process_files env dir now [] (filter (\<lambda>e. e_isDirectory e = Some False) entries)) = Inr st0"
    and a: "assemble env opts host now now2 st0 = Inr c" by blast
  let ?st = "normalise_all env st0"
  let ?xs = "sort_by compare_dates (List.map_filter (published now) (in_key_order ?st))"
  from process_files_distinct [OF f] have d: "distinct (map fst ?st)"
    by (simp add: keys_normalise_all)
  have n: "posts c = map (fst \<circ> snd) ?xs"
    unfolding assemble_Inr(1) [OF a] by (simp add: publish_def)
  have "\<exists>p. map_of (post c) (posts c ! i) = Some p \<and> date (meta p) = DDate (Some (map fst ?xs ! i))"
    if i: "i < length (posts c)" for i
  proof -
    from i n have "?xs ! i \<in> set (List.map_filter (published now) (in_key_order ?st))"
      by (metis length_map nth_mem set_sort_by)
    then obtain kq where "kq \<in> set ?st" and "published now kq = Some (?xs ! i)"
      by (auto simp: List.map_filter_def set_in_key_order)
    with published_Some [of now kq "fst (?xs ! i)" "snd (?xs ! i)"]
    have m: "snd (?xs ! i) \<in> set ?st" and t: "date (meta (snd (snd (?xs ! i)))) = DDate (Some (fst (?xs ! i)))"
      by auto
    from i n have k: "posts c ! i = fst (snd (?xs ! i))" by simp
    with d m have "map_of ?st (posts c ! i) = Some (snd (snd (?xs ! i)))" by simp
    with link_posts_lookup [of "posts c" ?st "posts c ! i"] obtain p where
      "map_of (post c) (posts c ! i) = Some p" and "meta p = meta (snd (snd (?xs ! i)))"
      unfolding assemble_Inr(2) [OF a] by auto
    with t i n show ?thesis by simp
  qed
  moreover have "sorted_wrt (\<lambda>a b. toISOString a \<le> toISOString b) (map fst ?xs)"
    using sorted_sort_by [of "List.map_filter (published now) (in_key_order ?st)"]
    by (simp add: sorted_wrt_map)
  moreover from n have "length (map fst ?xs) = length (posts c)" by simp
  ultimately show ?thesis by blast
qed

text \<open>Only the Atom document depends on the second reading of the clock.\<close>

lemma second_clock_only_in_atom:
  assumes "fst (readBlogSync env opts listing now now2) = Inr c"
  shows "\<exists>c1. fst (readBlogSync env opts listing now now3) = Inr c1
           \<and> posts c1 = posts c \<and> post c1 = post c \<and> pages c1 = pages c \<and> latest c1 = latest c
           \<and> archive c1 = archive c \<and> tagged c1 = tagged c \<and> rss c1 = rss c"
  using assms
  by (auto simp: readBlogSync_def read_content_def assemble_def Let_def
           split: if_splits option.splits prod.splits sum.splits)

subsection \<open>The date a post keeps\<close>

lemma decode_dir:
  "decode env dir filename ext contents = Inr d \<Longrightarrow> decode env dir1 filename ext contents = Inr d"
  by (cases "json_parse env contents"; cases "yaml_load env contents";
      cases "ini_decode env contents"; auto simp: decode_def split: if_splits)

lemma date_set_contents: "date (meta (set_contents env ext contents p)) = date (meta p)"
  by (simp add: set_contents_def)

lemma process_file_date:
  assumes "fst (process_file env dir now st e) = Inr st1"
    and "\<forall>p. map_of st b = Some p \<longrightarrow> date (meta p) = DDate (Some now)"
    and "file_basename (e_name e) = b \<longrightarrow> supplied_date env e = None"
  shows "\<forall>p. map_of st1 b = Some p \<longrightarrow> date (meta p) = DDate (Some now)"
proof (cases "validExt_truthy (file_ext (e_name e)) \<and> \<not> inherited (file_basename (e_name e))
               \<and> file_basename (e_name e) = b")
  case False
  with process_file_cases [OF assms(1)] assms(2) show ?thesis
    by (auto simp: map_of_alist_put)
next
  case True
  then obtain ext where ext: "file_ext (e_name e) = Some ext" and v: "validExt_truthy (Some ext)"
    and b: "file_basename (e_name e) = b" and n: "\<not> inherited b"
    by (auto simp: validExt_truthy_def split: option.splits)
  from assms(1) ext v obtain contents decoded where
    c: "e_contents e = Some contents" and
    d: "decode env dir (e_name e) ext contents = Inr decoded"
    by (auto simp: process_file_def Let_def split: option.splits sum.splits if_splits)
  from decode_dir [OF d, of "[]"] assms(3) b ext c
  have nodate: "\<forall>ov. decoded = Some ov \<longrightarrow> ov_date ov = None"
    by (auto simp: supplied_date_def)
  let ?p = "case map_of st b of None \<Rightarrow> default_post env now b | Some q \<Rightarrow> q"
  have dp: "date (meta ?p) = DDate (Some now)"
    using assms(2) by (auto simp: default_post_def split: option.splits)
  let ?p1 = "case decoded of None \<Rightarrow> ?p | Some ov \<Rightarrow> ?p\<lparr> meta := xtend (meta ?p) ov \<rparr>"
  have dp1: "date (meta ?p1) = DDate (Some now)"
    using dp nodate by (auto simp: xtend_def split: option.splits)
  from assms(1) ext v b c d n have "st1 = alist_put st b (set_contents env ext contents ?p1)"
    by (auto simp: process_file_def Let_def split: if_splits)
  with dp1 show ?thesis
    by (simp add: map_of_alist_put date_set_contents)
qed

lemma process_files_date:
  "fst (process_files env dir now st es) = Inr st1 \<Longrightarrow>
   \<forall>p. map_of st b = Some p \<longrightarrow> date (meta p) = DDate (Some now) \<Longrightarrow>
   \<forall>e \<in> set es. file_basename (e_name e) = b \<longrightarrow> supplied_date env e = None \<Longrightarrow>
   \<forall>p. map_of st1 b = Some p \<longrightarrow> date (meta p) = DDate (Some now)"
proof (induction es arbitrary: st)
  case Nil
  then show ?case by simp
next
  case (Cons e es)
  from Cons.prems(1) obtain st0 where
    a: "fst (process_file env dir now st e) = Inr st0" and
    b: "fst (process_files env dir now st0 es) = Inr st1"
    unfolding process_files_Cons_Inr by blast
  from process_file_date [OF a Cons.prems(2)] Cons.prems(3)
  have "\<forall>p. map_of st0 b = Some p \<longrightarrow> date (meta p) = DDate (Some now)" by simp
  from Cons.IH [OF b this] Cons.prems(3) show ?case by simp
qed

lemma map_of_normalise_all:
  "map_of (normalise_all env st) k = map_option (normalise env) (map_of st k)"
  by (induction st) (auto simp: normalise_all_def)

lemma date_normalise: "date (meta (normalise env p)) = DDate (to_time env (date (meta p)))"
  by (simp add: normalise_def Let_def)

subsection \<open>Posts whose date has not passed\<close>

text \<open>
  The facts of this section are about runs that have a result in the model. By
  \<open>process_file\<close> these are runs in which no file that is read has a base name that
  \<^verbatim>\<open>Object.prototype\<close> has, but for files under \<^verbatim>\<open>__proto__\<close> that write
  nothing; about the other runs the source completes they say nothing.

  In every result, each post of \<^verbatim>\<open>posts\<close> is in the table \<^verbatim>\<open>post\<close> with a
  valid date strictly before the run time \<open>now\<close>; every file that was read under a base
  name that \<^verbatim>\<open>Object.prototype\<close> does not have has its post in the table; and a post
  of the table whose date is not strictly before the run time (an invalid date included)
  is referenced by none of \<^verbatim>\<open>posts\<close>, \<^verbatim>\<open>latest\<close>, \<^verbatim>\<open>archive\<close> and
  \<^verbatim>\<open>tagged\<close>.
\<close>

lemma unpublished_posts_stay_in_the_table:
  assumes "fst (readBlogSync env opts (Some entries) now now2) = Inr c"
  shows "(\<forall>n \<in> set (posts c).
            \<exists>p t. map_of (post c) n = Some p \<and> date (meta p) = DDate (Some t) \<and> t < now)
       \<and> (\<forall>e \<in> set entries.
            e_isDirectory e = Some False \<and> validExt_truthy (file_ext (e_name e))
            \<and> \<not> inherited (file_basename (e_name e))
            \<longrightarrow> file_basename (e_name e) \<in> fst ` set (post c))
       \<and> (\<forall>n p. map_of (post c) n = Some p
                  \<and> (\<forall>t. date (meta p) = DDate (Some t) \<longrightarrow> \<not> t < now)
            \<longrightarrow> n \<notin> set (posts c) \<and> n \<notin> set (latest c)
                \<and> n \<notin> set (archive_refs (archive c)) \<and> n \<notin> set (bucket_refs (tagged c)))"
proof (intro conjI allI ballI impI)
  fix n assume "n \<in> set (posts c)"
  from posts_published [OF assms this]
  show "\<exists>p t. map_of (post c) n = Some p \<and> date (meta p) = DDate (Some t) \<and> t < now" .
next
  fix e assume "e \<in> set entries"
    and "e_isDirectory e = Some False \<and> validExt_truthy (file_ext (e_name e))
         \<and> \<not> inherited (file_basename (e_name e))"
  with read_files_have_posts [OF assms, of e]
  show "file_basename (e_name e) \<in> fst ` set (post c)" by simp
next
  fix n p
  assume h: "map_of (post c) n = Some p \<and> (\<forall>t. date (meta p) = DDate (Some t) \<longrightarrow> \<not> t < now)"
  with posts_published [OF assms, of n] show a: "n \<notin> set (posts c)" by auto
  with corpus_refs_published [OF assms]
  show "n \<notin> set (latest c)" and "n \<notin> set (archive_refs (archive c))"
    and "n \<notin> set (bucket_refs (tagged c))" by auto
qed

lemma unpublished_posts_stay_in_the_table_example:
  "\<exists>c. fst (readBlogSync sample_env sample_opts
               (Some [regular ''d.json'' ''{\"date\":\"2999-01-01T00:00:00.000Z\",\"tags\":[\"x\"]}'',
                      regular ''e.json'' ''{\"date\":\"2013-05-17T00:00:00.000Z\",\"tags\":[\"x\"]}''])
               1793664000000 1793664000001) = Inr c
       \<and> posts c = [''e'']
       \<and> ''d'' \<in> fst ` set (post c)
       \<and> ''d'' \<notin> set (posts c) \<and> ''d'' \<notin> set (latest c)
       \<and> ''d'' \<notin> set (archive_refs (archive c)) \<and> ''d'' \<notin> set (bucket_refs (tagged c))"
proof -
  let ?d = "regular ''d.json'' ''{\"date\":\"2999-01-01T00:00:00.000Z\",\"tags\":[\"x\"]}''"
  let ?e = "regular ''e.json'' ''{\"date\":\"2013-05-17T00:00:00.000Z\",\"tags\":[\"x\"]}''"
  let ?r = "fst (readBlogSync sample_env sample_opts (Some [?d, ?e]) 1793664000000 1793664000001)"
  have "case ?r of
          Inl err \<Rightarrow> False
        | Inr c \<Rightarrow> posts c = [''e''] \<and>
                   (case map_of (post c) ''d'' of
                      None \<Rightarrow> False
                    | Some p \<Rightarrow> date (meta p) = DDate (Some 32472144000000))"
    by (simp add: run_defs sample_defs build_defs iso_facts)
  then obtain c p where c: "?r = Inr c" and e: "posts c = [''e'']"
    and p: "map_of (post c) ''d'' = Some p" "date (meta p) = DDate (Some 32472144000000)"
    by (auto split: sum.splits option.splits)
  note t = unpublished_posts_stay_in_the_table [OF c]
  have "e_isDirectory ?d = Some False \<and> validExt_truthy (file_ext (e_name ?d))
        \<and> \<not> inherited (file_basename (e_name ?d))"
    and "file_basename (e_name ?d) = ''d''"
    by (simp_all add: regular_def file_ext_def file_basename_def validExt_truthy_def validExt_def
          inherited_def Object_prototype_def strip_initial_numbers_def is_digit_def)
  with t have "''d'' \<in> fst ` set (post c)" by fastforce
  moreover from p have "map_of (post c) ''d'' = Some p
      \<and> (\<forall>t. date (meta p) = DDate (Some t) \<longrightarrow> \<not> t < 1793664000000)" by simp
  with t have "''d'' \<notin> set (posts c) \<and> ''d'' \<notin> set (latest c)
      \<and> ''d'' \<notin> set (archive_refs (archive c)) \<and> ''d'' \<notin> set (bucket_refs (tagged c))"
    by blast
  ultimately show ?thesis using c e by blast
qed

text \<open>
  Let a file that is read have the base name \<open>b\<close>, which \<^verbatim>\<open>Object.prototype\<close> does
  not have, and let no file with that base name give a date (body files give none). Then
  in every result the post \<open>b\<close> is in the table \<^verbatim>\<open>post\<close>, its date is the run time
  \<open>now\<close> itself, and \<open>b\<close> is referenced by none of \<^verbatim>\<open>posts\<close>, \<^verbatim>\<open>latest\<close>,
  \<^verbatim>\<open>archive\<close> and \<^verbatim>\<open>tagged\<close>.
\<close>

lemma undated_post_is_never_published:
  assumes "fst (readBlogSync env opts (Some entries) now now2) = Inr c"
    and "e \<in> set entries" and "e_isDirectory e = Some False"
    and "validExt_truthy (file_ext (e_name e))"
    and "\<not> inherited (file_basename (e_name e))"
    and "\<forall>f \<in> set entries.
           e_isDirectory f = Some False \<and> file_basename (e_name f) = file_basename (e_name e)
           \<longrightarrow> supplied_date env f = None"
  shows "\<exists>p. map_of (post c) (file_basename (e_name e)) = Some p
           \<and> date (meta p) = DDate (Some now)
           \<and> file_basename (e_name e) \<notin> set (posts c)
           \<and> file_basename (e_name e) \<notin> set (latest c)
           \<and> file_basename (e_name e) \<notin> set (archive_refs (archive c))
           \<and> file_basename (e_name e) \<notin> set (bucket_refs (tagged c))"
proof -
  let ?b = "file_basename (e_name e)"
  let ?files = "filter (\<lambda>e. e_isDirectory e = Some False) entries"
  from readBlogSync_Inr [OF assms(1)] obtain host dir st0 where
    f: "fst (process_files env dir now [] ?files) = Inr st0"
    and a: "assemble env opts host now now2 st0 = Inr c" by blast
  from read_files_have_posts [OF assms(1-5)] obtain p where p: "map_of (post c) ?b = Some p"
    by (auto dest: weak_map_of_SomeI)
  have "\<forall>q. map_of st0 ?b = Some q \<longrightarrow> date (meta q) = DDate (Some now)"
    using process_files_date [OF f, of ?b] assms(6) by simp
  then have "\<forall>q. map_of (normalise_all env st0) ?b = Some q \<longrightarrow> date (meta q) = DDate (Some now)"
    by (auto simp: map_of_normalise_all date_normalise to_time_def)
  with p link_posts_lookup [of "posts c" "normalise_all env st0" ?b]
  have d: "date (meta p) = DDate (Some now)"
    unfolding assemble_Inr(2) [OF a] by (cases "map_of (normalise_all env st0) ?b") auto
  with p posts_published [OF assms(1), of ?b] have n: "?b \<notin> set (posts c)" by auto
  with corpus_refs_published [OF assms(1)] p d show ?thesis by auto
qed

lemma undated_post_is_never_published_example:
  "\<exists>c p. fst (readBlogSync sample_env sample_opts
                 (Some [regular ''01-hello.md'' ''World'',
                        regular ''e.json'' ''{\"date\":\"2013-05-17T00:00:00.000Z\",\"tags\":[\"x\"]}''])
                 1793664000000 1793664000001) = Inr c
         \<and> map_of (post c) ''hello'' = Some p
         \<and> date (meta p) = DDate (Some 1793664000000)
         \<and> ''hello'' \<notin> set (posts c) \<and> ''hello'' \<notin> set (latest c)
         \<and> ''hello'' \<notin> set (archive_refs (archive c)) \<and> ''hello'' \<notin> set (bucket_refs (tagged c))"
proof -
  let ?h = "regular ''01-hello.md'' ''World''"
  let ?e = "regular ''e.json'' ''{\"date\":\"2013-05-17T00:00:00.000Z\",\"tags\":[\"x\"]}''"
  let ?r = "fst (readBlogSync sample_env sample_opts (Some [?h, ?e]) 1793664000000 1793664000001)"
  have "case ?r of Inl err \<Rightarrow> False | Inr c \<Rightarrow> True"
    by (simp add: run_defs sample_defs build_defs iso_facts)
  then obtain c where c: "?r = Inr c"
    by (auto split: sum.splits)
  have 1: "?h \<in> set [?h, ?e]" and 2: "e_isDirectory ?h = Some False"
    and 3: "validExt_truthy (file_ext (e_name ?h))"
    and 4: "file_basename (e_name ?h) = ''hello''"
    and 6: "\<not> inherited (file_basename (e_name ?h))"
    by (simp_all add: regular_def file_ext_def file_basename_def validExt_truthy_def validExt_def
          inherited_def Object_prototype_def strip_initial_numbers_def is_digit_def)
  have 5: "\<forall>f \<in> set [?h, ?e].
             e_isDirectory f = Some False \<and> file_basename (e_name f) = file_basename (e_name ?h)
             \<longrightarrow> supplied_date sample_env f = None"
    by (simp add: regular_def file_ext_def file_basename_def strip_initial_numbers_def is_digit_def
          supplied_date_def decode_def)
  from undated_post_is_never_published [OF c 1 2 3 6 5] c show ?thesis
    unfolding 4 by blast
qed

section \<open>The claims\<close>

subsection \<open>Configuration\<close>

text \<open>
  Claim C8. When the configuration record has no \<^verbatim>\<open>domain\<close> or no
  \<^verbatim>\<open>contentDir\<close>, the function throws an Error, and the log of file system calls is
  empty: no directory was listed and no file was read.
\<close>

theorem missing_config_fails_before_io:
  "domain opts = None \<or> contentDir opts = None \<Longrightarrow>
   \<exists>msg. readBlogSync env opts listing now now2 = (Inl (Error msg), [])"
  by (auto simp: readBlogSync_def with_default_def)

theorem missing_config_fails_before_io_witness:
  "\<exists>msg. readBlogSync sample_env (sample_opts\<lparr> contentDir := None \<rparr>)
           (Some [regular ''hello.md'' ''World'']) 1793664000000 1793664000001
         = (Inl (Error msg), [])"
  using missing_config_fails_before_io
    [of "sample_opts\<lparr> contentDir := None \<rparr>" sample_env
        "Some [regular ''hello.md'' ''World'']" 1793664000000 1793664000001]
  by simp

subsection \<open>Metadata that does not decode\<close>

text \<open>
  Claim C7. Let the configuration be accepted and let the files of the directory (the
  entries that are not directories, in the order of the listing) contain a file with the
  extension json whose contents \<^verbatim>\<open>JSON.parse\<close> rejects. Then the run ends without a
  result; and when the files before that one were read without ending the run, it ends
  with the exit that line 127 announces with the name of that file.
\<close>

theorem rejected_json_aborts:
  assumes "domain opts = Some host" and "host \<noteq> []"
    and "contentDir opts = Some dir" and "dir \<noteq> []"
    and "fst (skip_directories dir entries) = Inr files"
    and "f \<in> set files"
    and "file_ext (e_name f) = Some ''json''"
    and "e_contents f = Some contents"
    and "json_parse env contents = None"
  shows "\<exists>err. fst (readBlogSync env opts (Some entries) now now2) = Inl err \<and>
           (\<forall>pre rest st. files = pre @ f # rest \<and> fst (process_files env dir now [] pre) = Inr st
              \<longrightarrow> err = JsonParseExit (e_name f))"
proof -
  from process_files_rejected_json [OF assms(6-9), of dir now "[]"] obtain err where
    err: "fst (process_files env dir now [] files) = Inl err" by blast
  have "err = JsonParseExit (e_name f)"
    if "files = pre @ f # rest" and "fst (process_files env dir now [] pre) = Inr st"
    for pre rest st
  proof -
    have "fst (process_file env dir now st f) = Inl (JsonParseExit (e_name f))"
      by (simp add: process_file_rejected_json [OF assms(7-9)])
    from process_files_append_Inl [OF that(2) this, of rest] err that(1)
    show ?thesis by simp
  qed
  with err show ?thesis
    by (simp add: readBlogSync_files [OF assms(1-5)]) blast
qed

theorem rejected_json_aborts_witness:
  "fst (readBlogSync sample_env sample_opts (Some [regular ''bad.json'' ''{oops''])
          1793664000000 1793664000001)
   = Inl (JsonParseExit ''bad.json'')"
proof -
  let ?f = "regular ''bad.json'' ''{oops''"
  have 1: "domain sample_opts = Some ''example.org''" and 2: "''example.org'' \<noteq> []"
    and 3: "contentDir sample_opts = Some ''content''" and 4: "''content'' \<noteq> []"
    by (simp_all add: sample_opts_def)
  have 5: "fst (skip_directories ''content'' [?f]) = Inr [?f]"
    by (simp add: regular_def)
  have 6: "?f \<in> set [?f]" by simp
  have 7: "file_ext (e_name ?f) = Some ''json''"
    by (simp add: regular_def file_ext_def)
  have 8: "e_contents ?f = Some ''{oops''"
    by (simp add: regular_def)
  have 9: "json_parse sample_env ''{oops'' = None"
    by (simp add: sample_env_def sample_json_def)
  from rejected_json_aborts [OF 1 2 3 4 5 6 7 8 9, of 1793664000000 1793664000001]
  obtain err where
    a: "fst (readBlogSync sample_env sample_opts (Some [?f]) 1793664000000 1793664000001) = Inl err"
    and b: "\<forall>pre rest st. [?f] = pre @ ?f # rest
              \<and> fst (process_files sample_env ''content'' 1793664000000 [] pre) = Inr st
              \<longrightarrow> err = JsonParseExit (e_name ?f)"
    by blast
  from b [rule_format, of "[]" "[]" "[]"] have "err = JsonParseExit ''bad.json''"
    by (simp add: regular_def)
  with a show ?thesis by simp
qed

subsection \<open>Two files for one post\<close>

text \<open>
  Claim C6. The directory holds the two files 01-hello.md, with the contents "World", and
  hello.json, whose contents \<^verbatim>\<open>JSON.parse\<close> decodes to the title "Hi" and the tags
  ["x"], listed in either order. Then the table \<^verbatim>\<open>post\<close> of the result has exactly
  one post, under the key hello, with the name hello, the title "Hi", the tags ["x"], the
  content "World" and the html that \<^verbatim>\<open>marked\<close> gives for "World".
\<close>

theorem hello_example:
  assumes "with_default [] (domain opts) \<noteq> []" and "with_default [] (contentDir opts) \<noteq> []"
    and "json_parse env js =
           Some \<lparr> ov_title = Some ''Hi'', ov_date = None, ov_tags = Some [''x''], ov_other = [] \<rparr>"
    and "entries = [regular ''01-hello.md'' ''World'', regular ''hello.json'' js]
         \<or> entries = [regular ''hello.json'' js, regular ''01-hello.md'' ''World'']"
  shows "\<exists>c p. fst (readBlogSync env opts (Some entries) now now2) = Inr c
           \<and> post c = [(''hello'', p)]
           \<and> name p = ''hello''
           \<and> title (meta p) = ''Hi''
           \<and> tags (meta p) = [''x'']
           \<and> content p = ''World''
           \<and> html p = marked env ''World''"
  using assms(4)
proof
  assume "entries = [regular ''01-hello.md'' ''World'', regular ''hello.json'' js]"
  with assms(1-3) show ?thesis
    by (simp add: run_defs)
next
  assume "entries = [regular ''hello.json'' js, regular ''01-hello.md'' ''World'']"
  with assms(1-3) show ?thesis
    by (simp add: run_defs)
qed

theorem hello_example_witness:
  "\<exists>c p. fst (readBlogSync sample_env sample_opts
                 (Some [regular ''01-hello.md'' ''World'',
                        regular ''hello.json'' ''{\"title\":\"Hi\",\"tags\":[\"x\"]}''])
                 1793664000000 1793664000001) = Inr c
         \<and> post c = [(''hello'', p)]
         \<and> name p = ''hello''
         \<and> title (meta p) = ''Hi''
         \<and> tags (meta p) = [''x'']
         \<and> content p = ''World''
         \<and> html p = ''<p>World</p>''"
proof -
  have 1: "with_default [] (domain sample_opts) \<noteq> []"
    and 2: "with_default [] (contentDir sample_opts) \<noteq> []"
    by (simp_all add: sample_opts_def with_default_def)
  have 3: "json_parse sample_env ''{\"title\":\"Hi\",\"tags\":[\"x\"]}'' =
             Some \<lparr> ov_title = Some ''Hi'', ov_date = None, ov_tags = Some [''x''], ov_other = [] \<rparr>"
    by (simp add: sample_env_def sample_json_def)
  have 4: "marked sample_env ''World'' = ''<p>World</p>''"
    by (simp add: sample_env_def)
  from hello_example [OF 1 2 3, of _ 1793664000000 1793664000001] 4
  show ?thesis by simp
qed

subsection \<open>Where the function does not do what is claimed\<close>

text \<open>
  Claim C1 says that a file with the plain-text extension gives its post the file's
  contents as content and the escaped contents in a pre element as html. The table of
  extensions has txt, line 157 tests for text: a file note.txt is read and leaves content
  and html empty, and a file note.text is not read at all.
\<close>

theorem txt_file_leaves_the_body_empty:
  "(\<exists>c. fst (readBlogSync env sample_opts (Some [regular ''note.txt'' contents]) now now2) = Inr c
        \<and> map (\<lambda>kp. (fst kp, content (snd kp), html (snd kp))) (post c) = [(''note'', [], [])])
   \<and> (\<exists>c. fst (readBlogSync env sample_opts (Some [regular ''note.text'' contents]) now now2) = Inr c
        \<and> post c = [])"
  by (simp add: run_defs sample_opts_def)

text \<open>
  Claim C2 says that the extension is everything after the first dot and that a file
  whose extension is not one of the seven is skipped. The extension is the piece between
  the first and the second dot, so draft.md.bak is read as markdown; and an extension that
  names a property of \<^verbatim>\<open>Object.prototype\<close> passes the test of line 89, so
  notes.constructor starts a post.
\<close>

theorem second_dot_ends_the_extension:
  "(\<exists>c. fst (readBlogSync env sample_opts (Some [regular ''draft.md.bak'' contents]) now now2) = Inr c
        \<and> map (\<lambda>kp. (fst kp, content (snd kp), html (snd kp))) (post c)
            = [(''draft'', contents, marked env contents)])
   \<and> (\<exists>c. fst (readBlogSync env sample_opts (Some [regular ''notes.constructor'' contents]) now now2) = Inr c
        \<and> map fst (post c) = [''notes''])"
  by (simp add: run_defs sample_opts_def)

text \<open>
  Claim C3 says that \<^verbatim>\<open>posts\<close> is ascending by date. The sort compares the texts
  \<^verbatim>\<open>toISOString\<close> gives, and for years before 0 these texts order backwards: of the
  two posts a, dated 1 January of the year -2, and b, dated 1 January of the year -1,
  b comes first in \<^verbatim>\<open>posts\<close>. What holds in every result is
  \<open>posts_sorted_by_iso_text\<close> (ascending by that text) and \<open>posts_links\<close> (the
  \<^verbatim>\<open>prev\<close> and \<^verbatim>\<open>next\<close> of each post are its neighbours in \<^verbatim>\<open>posts\<close>,
  absent at the two ends).
\<close>

theorem years_before_zero_sort_backwards:
  "case fst (readBlogSync sample_env sample_opts
               (Some [regular ''a.json'' ''{\"date\":\"-000002-01-01T00:00:00.000Z\"}'',
                      regular ''b.json'' ''{\"date\":\"-000001-01-01T00:00:00.000Z\"}''])
               1793664000000 1793664000001) of
     Inl err \<Rightarrow> False
   | Inr c \<Rightarrow>
       posts c = [''b'', ''a'']
       \<and> map (\<lambda>n. map_option (\<lambda>p. date (meta p)) (map_of (post c) n)) (posts c)
           = [Some (DDate (Some (- 62198755200000))), Some (DDate (Some (- 62230291200000)))]
       \<and> - 62230291200000 < (- 62198755200000 :: int)"
  by (simp add: run_defs sample_defs build_defs iso_facts)

text \<open>
  Claim C5 says that \<^verbatim>\<open>latest\<close> is \<^verbatim>\<open>posts\<close> reversed and cut to
  \<^verbatim>\<open>latestCount\<close> entries, and so descending by date. The first holds in every
  result with a count that is not negative (\<open>latest_is_reversed_prefix\<close>); the order
  by date fails with the sort: for the
  two posts a, dated 1 January of the year -2, and b, dated 1 January of the year -1,
  \<^verbatim>\<open>latest\<close> is a before b, the earlier date first.
\<close>

theorem latest_follows_the_backwards_sort:
  "case fst (readBlogSync sample_env sample_opts
               (Some [regular ''a.json'' ''{\"date\":\"-000002-01-01T00:00:00.000Z\"}'',
                      regular ''b.json'' ''{\"date\":\"-000001-01-01T00:00:00.000Z\"}''])
               1793664000000 1793664000001) of
     Inl err \<Rightarrow> False
   | Inr c \<Rightarrow>
       latest c = [''a'', ''b'']
       \<and> map (\<lambda>n. map_option (\<lambda>p. date (meta p)) (map_of (post c) n)) (latest c)
           = [Some (DDate (Some (- 62230291200000))), Some (DDate (Some (- 62198755200000)))]
       \<and> - 62230291200000 < (- 62198755200000 :: int)"
  by (simp add: run_defs sample_defs build_defs iso_facts)

text \<open>
  Claim C9 says that the outputs depend only on the directory and the run time. The
  \<^verbatim>\<open>updated\<close> field of the Atom feed is the time \<^verbatim>\<open>moment()\<close> reads on line
  280, not the run time line 69 read: two runs on the same directory with the same run
  time, the second clock reading one second apart, give different Atom documents. Every
  other output is the same for any second reading (\<open>second_clock_only_in_atom\<close>).
\<close>

theorem atom_reads_the_clock_again:
  "case (fst (readBlogSync sample_env sample_opts (Some [regular ''01-hello.md'' ''World''])
                1793664000000 1793664000000),
         fst (readBlogSync sample_env sample_opts (Some [regular ''01-hello.md'' ''World''])
                1793664000000 1793664001000)) of
     (Inr c1, Inr c2) \<Rightarrow>
       posts c1 = posts c2 \<and> archive c1 = archive c2 \<and> tagged c1 = tagged c2 \<and> rss c1 = rss c2
       \<and> atom c1 = ''<feed><updated>2026-11-03T00:00:00.000Z</updated></feed>''
       \<and> atom c2 = ''<feed><updated>2026-11-03T00:00:01.000Z</updated></feed>''
   | _ \<Rightarrow> False"
  by (simp add: run_defs sample_defs build_defs iso_facts)



end
